theory Spec2Isabelle
  imports Complex_Main "HOL-Library.Sublist" "HOL-Library.Word"
begin

section \<open>Scene identifiers and the dataset they belong to\<close>

text \<open>
  \<^verbatim>\<open>train_multi_task.py\<close> tells the four datasets apart by the name of the scene
  (\<^verbatim>\<open>building\<close>). The table \<^verbatim>\<open>REPLICA_BUILDINGS\<close> is imported from the dataset
  module; every function below takes it as the parameter \<open>RB\<close>.

  Python's \<^verbatim>\<open>s.__contains__('-')\<close> is membership of the character,
  \<^verbatim>\<open>s.split('-')[0]\<close> is the part of \<open>s\<close> before its first hyphen (all of \<open>s\<close> when
  it has none), \<^verbatim>\<open>s.startswith(p)\<close> is the prefix relation on lists of characters.
\<close>

definition split_first :: "string \<Rightarrow> string" where
  "split_first building = takeWhile (\<lambda>c. c \<noteq> CHR ''-'') building"

definition building_in_gso :: "string list \<Rightarrow> string \<Rightarrow> bool" where
  "building_in_gso RB building \<longleftrightarrow>
     CHR ''-'' \<in> set building \<and> split_first building \<in> set RB"

definition building_in_replica :: "string list \<Rightarrow> string \<Rightarrow> bool" where
  "building_in_replica RB building \<longleftrightarrow> building \<in> set RB"

definition building_in_hypersim :: "string \<Rightarrow> bool" where
  "building_in_hypersim building \<longleftrightarrow> prefix ''ai_'' building"

definition building_in_taskonomy :: "string list \<Rightarrow> string \<Rightarrow> bool" where
  "building_in_taskonomy RB building \<longleftrightarrow>
     building \<notin> set RB \<and> \<not> prefix ''ai_'' building \<and> CHR ''-'' \<notin> set building"

text \<open>How many of the four predicates a scene identifier satisfies.\<close>

definition buckets_of :: "string list \<Rightarrow> string \<Rightarrow> nat" where
  "buckets_of RB building =
     length (filter id [building_in_gso RB building, building_in_replica RB building,
                        building_in_hypersim building, building_in_taskonomy RB building])"

section \<open>Curating the validation samples\<close>

text \<open>
  \<^verbatim>\<open>select_val_samples_for_datasets\<close> draws indices with \<^verbatim>\<open>random.randint\<close> until 95
  samples are accepted. The validation set is modelled by the list of the scene names of
  its samples (the only field the loop reads), the generator by the list of raw random
  numbers it hands out, one per iteration: \<^verbatim>\<open>randint(a, b)\<close> raises \<^verbatim>\<open>ValueError\<close> on
  an empty range and returns a member of \<open>{a..b}\<close> otherwise. A run that has used up the
  list while the loop condition still holds has not returned: it is \<open>None\<close>.
  The \<^verbatim>\<open>print\<close> of each iteration is not modelled.
\<close>

datatype error = ValueError | IndexError | RuntimeError

definition randint :: "int \<Rightarrow> int \<Rightarrow> nat \<Rightarrow> error + int" where
  "randint a b r = (if b < a then Inl ValueError else Inr (a + int r mod (b - a + 1)))"

text \<open>
  \<^verbatim>\<open>val_imgs\<close> is a \<^verbatim>\<open>defaultdict(list)\<close>: a total function from keys to lists, the
  empty list where nothing was appended.
\<close>

type_synonym val_imgs = "string \<Rightarrow> nat list"

record sel_state =
  frls :: nat
  val_imgs :: val_imgs

definition init_state :: sel_state where
  "init_state = \<lparr>frls = 0, val_imgs = (\<lambda>_. [])\<rparr>"

definition append_to :: "string \<Rightarrow> nat \<Rightarrow> sel_state \<Rightarrow> sel_state" where
  "append_to k idx st = st\<lparr>val_imgs := (val_imgs st)(k := val_imgs st k @ [idx])\<rparr>"

definition n_accepted :: "sel_state \<Rightarrow> nat" where
  "n_accepted st = length (val_imgs st ''replica'') + length (val_imgs st ''taskonomy'') +
              length (val_imgs st ''hypersim'') + length (val_imgs st ''gso'')"

text \<open>The branches of one iteration, for the drawn index and its scene name.\<close>

definition accept :: "string list \<Rightarrow> nat \<Rightarrow> string \<Rightarrow> sel_state \<Rightarrow> sel_state" where
  "accept RB idx building st =
     (if building_in_hypersim building \<and> length (val_imgs st ''hypersim'') < 40
        then append_to ''hypersim'' idx st
      else if building_in_replica RB building \<and> length (val_imgs st ''replica'') < 25
        then (if prefix ''frl'' building \<and> frls st > 15 then st
              else append_to ''replica'' idx
                     (if prefix ''frl'' building then st\<lparr>frls := frls st + 1\<rparr> else st))
      else if building_in_gso RB building \<and> length (val_imgs st ''gso'') < 20
        then append_to ''gso'' idx st
      else if building_in_taskonomy RB building \<and> length (val_imgs st ''taskonomy'') < 30
        then append_to ''taskonomy'' idx st
      else st)"

definition loop_body :: "string list \<Rightarrow> string list \<Rightarrow> sel_state \<Rightarrow> nat \<Rightarrow> error + sel_state" where
  "loop_body RB valset st r =
     (case randint 0 (int (length valset) - 1) r of
        Inl e \<Rightarrow> Inl e
      | Inr idx \<Rightarrow> Inr (accept RB (nat idx) (valset ! nat idx) st))"

fun select_loop ::
  "string list \<Rightarrow> string list \<Rightarrow> nat list \<Rightarrow> sel_state \<Rightarrow> (error + sel_state) option" where
  "select_loop RB valset [] st = (if n_accepted st < 95 then None else Some (Inr st))"
| "select_loop RB valset (r # rs) st =
     (if n_accepted st < 95
        then (case loop_body RB valset st r of
                Inl e \<Rightarrow> Some (Inl e)
              | Inr st' \<Rightarrow> select_loop RB valset rs st')
      else Some (Inr st))"

definition select_val_samples_for_datasets ::
  "string list \<Rightarrow> string list \<Rightarrow> nat list \<Rightarrow> (error + val_imgs) option" where
  "select_val_samples_for_datasets RB valset rs =
     map_option (map_sum id val_imgs) (select_loop RB valset rs init_state)"

text \<open>
  The states at the head of the loop, in the order the run visits them: the run of
  \<open>select_loop\<close>, keeping every state instead of the last one.
\<close>

fun loop_states :: "string list \<Rightarrow> string list \<Rightarrow> nat list \<Rightarrow> sel_state \<Rightarrow> sel_state list" where
  "loop_states RB valset [] st = [st]"
| "loop_states RB valset (r # rs) st =
     st # (if n_accepted st < 95
             then (case loop_body RB valset st r of
                     Inl e \<Rightarrow> []
                   | Inr st' \<Rightarrow> loop_states RB valset rs st')
           else [])"

definition bucket_sizes :: "sel_state \<Rightarrow> nat \<times> nat \<times> nat \<times> nat" where
  "bucket_sizes st = (length (val_imgs st ''hypersim''), length (val_imgs st ''replica''),
                      length (val_imgs st ''gso''), length (val_imgs st ''taskonomy''))"

definition within_quota :: "sel_state \<Rightarrow> bool" where
  "within_quota st \<longleftrightarrow>
     length (val_imgs st ''hypersim'') \<le> 40 \<and> length (val_imgs st ''replica'') \<le> 25 \<and>
     length (val_imgs st ''gso'') \<le> 20 \<and> length (val_imgs st ''taskonomy'') \<le> 30"

text \<open>The scene names of the indices the generator's numbers select.\<close>

definition drawn :: "string list \<Rightarrow> nat list \<Rightarrow> string list" where
  "drawn valset rs = map (\<lambda>r. valset ! (r mod length valset)) rs"

definition frl_in_replica :: "string list \<Rightarrow> sel_state \<Rightarrow> nat" where
  "frl_in_replica valset st =
     length (filter (\<lambda>i. prefix ''frl'' (valset ! i)) (val_imgs st ''replica''))"


text \<open>
  A sequence of draws is diverse enough when it selects at least 40 Hypersim scenes, at
  least 25 Replica scenes that are neither Hypersim names nor \<open>frl\<close> scenes, and at
  least 30 Taskonomy scenes.
\<close>

definition enough_diversity :: "string list \<Rightarrow> string list \<Rightarrow> nat list \<Rightarrow> bool" where
  "enough_diversity RB valset rs \<longleftrightarrow>
     valset \<noteq> [] \<and>
     40 \<le> length (filter building_in_hypersim (drawn valset rs)) \<and>
     25 \<le> length (filter (\<lambda>b. building_in_replica RB b \<and> \<not> building_in_hypersim b \<and>
                                \<not> prefix ''frl'' b) (drawn valset rs)) \<and>
     30 \<le> length (filter (building_in_taskonomy RB) (drawn valset rs))"


text \<open>
  The counter \<^verbatim>\<open>frls\<close> is the number of \<open>frl\<close> scenes in the replica bucket, and it
  stays at or below 16.
\<close>

definition frl_counted :: "string list \<Rightarrow> sel_state \<Rightarrow> bool" where
  "frl_counted valset st \<longleftrightarrow> frl_in_replica valset st = frls st \<and> frls st \<le> 16"

section \<open>Tensors\<close>

text \<open>
  A tensor is the nested list of its entries, outermost axis first; a plane is its last
  two axes (rows of entries). The masks \<^verbatim>\<open>make_valid_mask\<close> accepts have three, four or
  five axes, the ones it returns four or five. The entries of a float tensor are real
  numbers: the code only subtracts a mask entry from 1, takes maxima and compares with 0,
  and on finite floats each of these gives the answer it gives on the reals.
\<close>

type_synonym 'a plane = "'a list list"

datatype 'a tensor =
    T3 "'a plane list"
  | T4 "'a plane list list"
  | T5 "'a plane list list list"

datatype 'a mask_out =
    M4 "'a plane list list"
  | M5 "'a plane list list list"

definition height :: "'a plane \<Rightarrow> nat" where
  "height p = length p"

definition width :: "'a plane \<Rightarrow> nat" where
  "width p = (case p of [] \<Rightarrow> 0 | r # _ \<Rightarrow> length r)"

definition rect :: "nat \<Rightarrow> nat \<Rightarrow> 'a plane \<Rightarrow> bool" where
  "rect h w p \<longleftrightarrow> length p = h \<and> list_all (\<lambda>r. length r = w) p"

text \<open>
  A mask as a batch of lists of channels: a mask of three axes is a batch of one, a mask
  of five axes \<open>(b, p, c, h, w)\<close> is the batch \<open>(b * p, c, h, w)\<close>.
\<close>

definition batch_of :: "'a tensor \<Rightarrow> 'a plane list list" where
  "batch_of t = (case t of T3 x \<Rightarrow> [x] | T4 x \<Rightarrow> x | T5 x \<Rightarrow> concat x)"

definition planes_of :: "'a tensor \<Rightarrow> 'a plane list" where
  "planes_of t = (case t of T3 x \<Rightarrow> x | T4 x \<Rightarrow> concat x | T5 x \<Rightarrow> concat (concat x))"

definition planes_of_out :: "'a mask_out \<Rightarrow> 'a plane list" where
  "planes_of_out t = (case t of M4 x \<Rightarrow> concat x | M5 x \<Rightarrow> concat (concat x))"

section \<open>The valid mask\<close>

text \<open>
  \<^verbatim>\<open>F.max_pool2d(x, kernel_size=k)\<close> has stride \<open>k\<close>, no padding and rounds the output
  size down: an axis of length \<open>n\<close> gives \<open>(n - k) div k + 1\<close> windows, and the call
  raises when \<open>k\<close> is not positive or an axis is shorter than \<open>k\<close>. Entry \<open>(i, j)\<close> of the
  result is the maximum over rows \<open>i * k, \<dots>, i * k + k - 1\<close> and the same columns at \<open>j\<close>.
\<close>

definition pool_window :: "nat \<Rightarrow> real plane \<Rightarrow> nat \<Rightarrow> nat \<Rightarrow> real list" where
  "pool_window k p i j =
     concat (map (\<lambda>di. map (\<lambda>dj. p ! (i * k + di) ! (j * k + dj)) [0..<k]) [0..<k])"

definition max_pool2d :: "nat \<Rightarrow> real plane \<Rightarrow> real plane" where
  "max_pool2d k p =
     map (\<lambda>i. map (\<lambda>j. Max (set (pool_window k p i j))) [0..<(width p - k) div k + 1])
       [0..<(height p - k) div k + 1]"

text \<open>
  \<^verbatim>\<open>F.interpolate(x, (S, S), mode='nearest')\<close> reads, for the output row \<open>y\<close> of an
  input of \<open>h\<close> rows, the input row \<open>min (floorf (y * scale)) (h - 1)\<close>, where
  \<open>scale = (float) h / S\<close>, and the same for columns. Both the quotient and the product
  are float32 operations: each result is rounded to the nearest number with a significand
  of 24 bits, ties to the even significand. A float32 is given here by a fraction, a pair
  of a numerator and a denominator; sizes and indices are far from the range where
  float32 overflows or loses precision near zero, so exponents are not bounded.
\<close>

fun bit_length :: "nat \<Rightarrow> nat" where
  "bit_length n = (if n = 0 then 0 else Suc (bit_length (n div 2)))"

declare bit_length.simps [simp del]

text \<open>The integer nearest to \<open>p / q\<close>, the even one of two that are equally near.\<close>

definition round_even :: "nat \<Rightarrow> nat \<Rightarrow> nat" where
  "round_even p q =
     (let f = p div q; r = p mod q
      in if 2 * r < q then f else if q < 2 * r then f + 1 else if even f then f else f + 1)"

text \<open>
  The float32 nearest to \<open>p / q\<close>: the quotient is scaled by a power of two to \<open>n / d\<close>
  between \<open>2 ^ 23\<close> and \<open>2 ^ 25\<close>, rounded to an integer of 24 bits, and scaled back.
\<close>

definition round24 :: "nat \<Rightarrow> nat \<Rightarrow> nat \<times> nat" where
  "round24 p q =
     (if p = 0 then (0, 1)
      else let n = p * 2 ^ (24 + bit_length q - bit_length p);
               d = q * 2 ^ (bit_length p - (24 + bit_length q));
               mant = (if n < 2 ^ 24 * d then round_even n d else 2 * round_even n (2 * d))
           in (mant * p * d, q * n))"

definition nearest_idx :: "nat \<Rightarrow> nat \<Rightarrow> nat \<Rightarrow> nat" where
  "nearest_idx dst input_size output_size =
     (let scale = round24 input_size output_size;
          dstf = round24 dst 1;
          prod = round24 (fst dstf * fst scale) (snd dstf * snd scale)
      in min (fst prod div snd prod) (input_size - 1))"

definition interpolate :: "nat \<Rightarrow> 'a plane \<Rightarrow> 'a plane" where
  "interpolate S p =
     map (\<lambda>y. map (\<lambda>x. p ! nearest_idx y (height p) S ! nearest_idx x (width p) S) [0..<S])
       [0..<S]"

text \<open>What \<^verbatim>\<open>make_valid_mask\<close> does to one plane of the mask.\<close>

definition valid_plane :: "nat \<Rightarrow> nat \<Rightarrow> real plane \<Rightarrow> bool plane" where
  "valid_plane image_size max_pool_size mask_float =
     map (map (\<lambda>v. v = 0))
       (interpolate image_size (max_pool2d max_pool_size (map (map (\<lambda>v. 1 - v)) mask_float)))"

text \<open>
  A mask of three axes gets a leading axis of length one. A mask of five axes
  \<open>(b, p, c, h, w)\<close> is flattened to \<open>(b * p, c, h, w)\<close> and, at the end, regrouped with
  \<^verbatim>\<open>p = self.num_positive\<close>, which \<^verbatim>\<open>setup_datasets\<close> sets to 1: every group holds one
  element. \<^verbatim>\<open>F.max_pool2d\<close> raises on a mask with no channel, and
  \<^verbatim>\<open>F.interpolate\<close> on an output size of zero.
\<close>

definition make_valid_mask :: "nat \<Rightarrow> real tensor \<Rightarrow> nat \<Rightarrow> error + bool mask_out" where
  "make_valid_mask image_size mask_float max_pool_size =
     (let reshape_temp = (case mask_float of T5 _ \<Rightarrow> True | _ \<Rightarrow> False);
          m4 = batch_of mask_float
      in if max_pool_size = 0 \<or> image_size = 0 \<or> list_ex (\<lambda>c. c = []) m4 \<or>
            list_ex (\<lambda>p. height p < max_pool_size \<or> width p < max_pool_size) (concat m4)
         then Inl RuntimeError
         else let mask_valid = map (map (valid_plane image_size max_pool_size)) m4
              in Inr (if reshape_temp then M5 (map (\<lambda>x. [x]) mask_valid) else M4 mask_valid))"

text \<open>\<^verbatim>\<open>.float()\<close> of a boolean mask, to feed a valid mask to \<^verbatim>\<open>make_valid_mask\<close> again.\<close>

definition float_of_bool :: "bool \<Rightarrow> real" where
  "float_of_bool b = (if b then 1 else 0)"

definition float_mask :: "bool mask_out \<Rightarrow> real tensor" where
  "float_mask m = (case m of M4 x \<Rightarrow> T4 (map (map (map (map float_of_bool))) x)
                           | M5 x \<Rightarrow> T5 (map (map (map (map (map float_of_bool)))) x))"

text \<open>The pixels a valid mask marks, as triples of plane number, row and column.\<close>

definition valid_pixels :: "bool mask_out \<Rightarrow> (nat \<times> nat \<times> nat) set" where
  "valid_pixels m =
     {(n, y, x). n < length (planes_of_out m) \<and> y < length (planes_of_out m ! n) \<and>
                 x < length (planes_of_out m ! n ! y) \<and> planes_of_out m ! n ! y ! x}"

section \<open>The shared step\<close>

text \<open>
  The targets of \<^verbatim>\<open>nn.CrossEntropyLoss\<close> are class indices, which PyTorch accepts as
  64-bit integers only: a label is a 64-bit word, \<open>- 1\<close> is the word of all ones. A pixel
  of the encoded label image is the triple of its three channels.
\<close>

type_synonym label = "64 word"
type_synonym pixel = "label \<times> label \<times> label"

text \<open>
  A loss is a float: a real number, or the NaN that the mean over no element gives.
  Rounding is not modelled. Arithmetic with NaN gives NaN.
\<close>

datatype fval = Fin real | NaN

fun fmul :: "fval \<Rightarrow> fval \<Rightarrow> fval" where
  "fmul (Fin a) (Fin b) = Fin (a * b)"
| "fmul _ _ = NaN"

fun fadd :: "fval \<Rightarrow> fval \<Rightarrow> fval" where
  "fadd (Fin a) (Fin b) = Fin (a + b)"
| "fadd _ _ = NaN"

record 'rgb batch =
  batch_rgb :: 'rgb
  batch_segment_semantic :: "pixel plane list"
  batch_normal :: "real plane list list"
  batch_mask_valid :: "real tensor"

record step_results =
  normal_loss :: fval
  semantic_loss :: fval
  loss :: fval

text \<open>
  \<^verbatim>\<open>semantic_gt = semantic[:,:,:,0]\<close> is a view of channel 0, and the two assignments
  write through it; the index of the first one is computed from the three channels
  before anything is written.
\<close>

definition background_to_zero :: "pixel \<Rightarrow> label" where
  "background_to_zero px =
     (case px of (c0, c1, c2) \<Rightarrow> if c0 = 255 \<and> c1 = 255 \<and> c2 = 255 then 0 else c0)"

definition undefined_to_zero :: "label \<Rightarrow> label" where
  "undefined_to_zero l = (if l = - 1 then 0 else l)"

text \<open>
  An in-place product \<^verbatim>\<open>a *= m\<close> broadcasts \<open>m\<close> to the shape of \<open>a\<close>: each axis of \<open>m\<close>
  has the length of the axis of \<open>a\<close>, or length one, and then its only entry is read at
  every index. Otherwise the product raises. The shape of a list of planes is read off
  its first plane (a batch is never empty).
\<close>

definition broadcasts :: "nat \<Rightarrow> nat \<Rightarrow> bool" where
  "broadcasts m n \<longleftrightarrow> m = n \<or> m = 1"

definition bidx :: "nat \<Rightarrow> nat \<Rightarrow> nat" where
  "bidx m i = (if m = 1 then 0 else i)"

definition height3 :: "'a plane list \<Rightarrow> nat" where
  "height3 t = (case t of [] \<Rightarrow> 0 | p # _ \<Rightarrow> height p)"

definition width3 :: "'a plane list \<Rightarrow> nat" where
  "width3 t = (case t of [] \<Rightarrow> 0 | p # _ \<Rightarrow> width p)"

definition shape3 :: "'a plane list \<Rightarrow> nat \<times> nat \<times> nat" where
  "shape3 t = (length t, height3 t, width3 t)"

definition imul_mask2 :: "label plane \<Rightarrow> bool plane \<Rightarrow> error + label plane" where
  "imul_mask2 g m =
     (if broadcasts (height m) (height g) \<and> broadcasts (width m) (width g)
      then Inr (map (\<lambda>y. map (\<lambda>x. g ! y ! x *
                                   (if m ! bidx (height m) y ! bidx (width m) x then 1 else 0))
                             [0..<width g]) [0..<height g])
      else Inl RuntimeError)"

definition imul_mask3 :: "label plane list \<Rightarrow> bool plane list \<Rightarrow> error + label plane list" where
  "imul_mask3 g m =
     (if broadcasts (length m) (length g) \<and> broadcasts (height3 m) (height3 g) \<and>
         broadcasts (width3 m) (width3 g)
      then Inr (map (\<lambda>b. map (\<lambda>y. map (\<lambda>x. g ! b ! y ! x *
                 (if m ! bidx (length m) b ! bidx (height3 m) y ! bidx (width3 m) x
                  then 1 else 0))
               [0..<width3 g]) [0..<height3 g]) [0..<length g])
      else Inl RuntimeError)"

text \<open>
  \<^verbatim>\<open>mask_valid.squeeze(1)\<close> drops axis 1 when its length is one and returns the mask as
  it is otherwise; \<^verbatim>\<open>mask_valid.repeat_interleave(3, 1)\<close> repeats every entry of axis 1
  three times.
\<close>

definition squeeze1 :: "'a mask_out \<Rightarrow> 'a tensor" where
  "squeeze1 m =
     (case m of
        M4 x \<Rightarrow> if list_all (\<lambda>c. length c = 1) x then T3 (map hd x) else T4 x
      | M5 x \<Rightarrow> if list_all (\<lambda>c. length c = 1) x then T4 (map hd x) else T5 x)"

definition repeat_interleave3 :: "'a list \<Rightarrow> 'a list" where
  "repeat_interleave3 xs = concat (map (replicate 3) xs)"

definition mask_valid_normal :: "'a mask_out \<Rightarrow> 'a mask_out" where
  "mask_valid_normal m =
     (case m of M4 x \<Rightarrow> M4 (map repeat_interleave3 x) | M5 x \<Rightarrow> M5 (map repeat_interleave3 x))"

text \<open>
  The labels after the product with the mask (lines 284 to 291), and after the
  subtraction of one (line 292). A mask that kept four or five axes cannot be broadcast
  to the three axes of the labels.
\<close>

definition masked_labels :: "bool mask_out \<Rightarrow> pixel plane list \<Rightarrow> error + label plane list" where
  "masked_labels mask_valid semantic =
     (let semantic_gt = map (map (map (\<lambda>px. undefined_to_zero (background_to_zero px)))) semantic
      in case squeeze1 mask_valid of
           T3 mask_valid_semantic \<Rightarrow> imul_mask3 semantic_gt mask_valid_semantic
         | _ \<Rightarrow> Inl RuntimeError)"

definition shifted_labels :: "bool mask_out \<Rightarrow> pixel plane list \<Rightarrow> error + label plane list" where
  "shifted_labels mask_valid semantic =
     (case masked_labels mask_valid semantic of
        Inl e \<Rightarrow> Inl e
      | Inr semantic_gt \<Rightarrow> Inr (map (map (map (\<lambda>l. l - 1))) semantic_gt))"

text \<open>
  \<^verbatim>\<open>nn.CrossEntropyLoss(ignore_index=-1)\<close>, with its default mean reduction and no class
  weights, on predictions of shape \<open>(B, C, H, W)\<close> and targets of shape \<open>(B, H, W)\<close>, as
  PyTorch computes it on the CPU. It raises a \<^verbatim>\<open>ValueError\<close> when the batch sizes differ, a
  \<^verbatim>\<open>RuntimeError\<close> when the spatial sizes differ, and an \<^verbatim>\<open>IndexError\<close> when a target
  that is not the ignored index is not a class, that is, not in \<open>[0, C)\<close> as a signed
  integer. Otherwise the loss is the mean, over the pixels whose target is not the ignored
  index, of minus the log-softmax of the predictions of the pixel at the target class, and
  NaN when there is no such pixel. The number of classes is read off the first element of
  the batch and the spatial size off the first plane; predictions with no class have no
  plane, and their spatial size is taken to be the one of the targets.
\<close>

definition positions :: "'a plane list \<Rightarrow> (nat \<times> nat \<times> nat) list" where
  "positions t =
     concat (map (\<lambda>b. concat (map (\<lambda>y. map (\<lambda>x. (b, y, x)) [0..<length (t ! b ! y)])
                                  [0..<length (t ! b)])) [0..<length t])"

definition counted :: "label \<Rightarrow> label plane list \<Rightarrow> (nat \<times> nat \<times> nat) list" where
  "counted ignore_index target =
     filter (\<lambda>(b, y, x). target ! b ! y ! x \<noteq> ignore_index) (positions target)"

definition n_classes :: "'a plane list list \<Rightarrow> nat" where
  "n_classes input = (case input of [] \<Rightarrow> 0 | c # _ \<Rightarrow> length c)"

definition spatial :: "'a plane list list \<Rightarrow> (nat \<times> nat) option" where
  "spatial input = (case concat input of [] \<Rightarrow> None | p # _ \<Rightarrow> Some (height p, width p))"

definition is_class :: "nat \<Rightarrow> label \<Rightarrow> bool" where
  "is_class n l \<longleftrightarrow> 0 \<le> sint l \<and> sint l < int n"

definition logits :: "real plane list list \<Rightarrow> nat \<Rightarrow> nat \<Rightarrow> nat \<Rightarrow> real list" where
  "logits input b y x = map (\<lambda>c. input ! b ! c ! y ! x) [0..<n_classes input]"

definition log_softmax :: "real list \<Rightarrow> nat \<Rightarrow> real" where
  "log_softmax xs c = xs ! c - ln (sum_list (map exp xs))"

definition cross_entropy ::
  "label \<Rightarrow> real plane list list \<Rightarrow> label plane list \<Rightarrow> error + fval" where
  "cross_entropy ignore_index input target =
     (if length input \<noteq> length target then Inl ValueError
      else if (case spatial input of None \<Rightarrow> False
               | Some hw \<Rightarrow> hw \<noteq> (height3 target, width3 target))
      then Inl RuntimeError
      else let ps = counted ignore_index target
           in if list_ex (\<lambda>(b, y, x). \<not> is_class (n_classes input) (target ! b ! y ! x)) ps
              then Inl IndexError
              else if ps = [] then Inr NaN
              else Inr (Fin (sum_list (map (\<lambda>(b, y, x).
                                  - log_softmax (logits input b y x) (unat (target ! b ! y ! x))) ps)
                             / real (length ps))))"

definition clamp :: "real \<Rightarrow> real \<Rightarrow> real \<Rightarrow> real" where
  "clamp v lo hi = min (max v lo) hi"

text \<open>
  \<^verbatim>\<open>shared_step\<close>. The network (\<^verbatim>\<open>self(rgb)\<close>, giving the normal and the semantic
  predictions) and \<^verbatim>\<open>masked_l1_loss\<close>, which is imported from the losses module, are
  parameters; either may raise, and then the step raises. The argument \<^verbatim>\<open>train\<close> is not
  used.
\<close>

definition shared_step ::
  "nat \<Rightarrow> ('rgb \<Rightarrow> error + real plane list list \<times> real plane list list) \<Rightarrow>
   (real plane list list \<Rightarrow> real plane list list \<Rightarrow> bool mask_out \<Rightarrow> error + fval) \<Rightarrow>
   'rgb batch \<Rightarrow> error + step_results" where
  "shared_step image_size model masked_l1_loss batch =
     (case make_valid_mask image_size (batch_mask_valid batch) 4 of
        Inl e \<Rightarrow> Inl e
      | Inr mask_valid \<Rightarrow>
          (case shifted_labels mask_valid (batch_segment_semantic batch) of
             Inl e \<Rightarrow> Inl e
           | Inr semantic_gt \<Rightarrow>
               (case model (batch_rgb batch) of
                  Inl e \<Rightarrow> Inl e
                | Inr preds \<Rightarrow>
                    (let normal_preds = map (map (map (map (\<lambda>v. clamp v 0 1)))) (fst preds);
                         semantic_preds = snd preds
                     in case masked_l1_loss normal_preds (batch_normal batch)
                               (mask_valid_normal mask_valid) of
                          Inl e \<Rightarrow> Inl e
                        | Inr loss_normal \<Rightarrow>
                            (case cross_entropy (- 1) semantic_preds semantic_gt of
                               Inl e \<Rightarrow> Inl e
                             | Inr loss_semantic \<Rightarrow>
                                 (let total_loss = fadd (fmul (Fin 10) loss_normal) loss_semantic
                                  in Inr \<lparr>normal_loss = loss_normal,
                                           semantic_loss = loss_semantic,
                                           loss = total_loss\<rparr>))))))"

text \<open>
  One entry of a tensor of four axes replaced, to compare the loss on predictions that
  differ at one pixel.
\<close>

definition update4 :: "'a plane list list \<Rightarrow> nat \<Rightarrow> nat \<Rightarrow> nat \<Rightarrow> nat \<Rightarrow> 'a \<Rightarrow> 'a plane list list" where
  "update4 t b c y x v = t[b := (t ! b)[c := (t ! b ! c)[y := (t ! b ! c ! y)[x := v]]]]"

text \<open>
  A batch as the data loader collates it for this step: a mask of shape \<open>(B, 1, H, W)\<close>
  with \<open>H\<close> and \<open>W\<close> at least the pool size 4, and labels of shape \<open>(B, S, S)\<close> for the
  image size \<open>S\<close>.
\<close>

definition well_shaped :: "nat \<Rightarrow> 'rgb batch \<Rightarrow> bool" where
  "well_shaped image_size batch \<longleftrightarrow>
     0 < image_size \<and>
     (case batch_mask_valid batch of
        T4 m \<Rightarrow> m \<noteq> [] \<and> length m = length (batch_segment_semantic batch) \<and>
                list_all (\<lambda>c. length c = 1 \<and> list_all (\<lambda>p. 4 \<le> height p \<and> 4 \<le> width p) c) m
      | _ \<Rightarrow> False) \<and>
     list_all (rect image_size image_size) (batch_segment_semantic batch)"

section \<open>Datasets and the validation images\<close>

text \<open>
  \<^verbatim>\<open>setup_datasets\<close> builds the list of training datasets from the four flags and sets
  the list of validation datasets; \<open>gso\<close> is commented out of the latter.
\<close>

record flags =
  use_taskonomy :: bool
  use_replica :: bool
  use_gso :: bool
  use_hypersim :: bool

record datasets =
  train_datasets :: "string list"
  val_datasets :: "string list"

definition setup_datasets :: "flags \<Rightarrow> datasets" where
  "setup_datasets fl =
     \<lparr>train_datasets =
        (if use_taskonomy fl then [''taskonomy''] else []) @
        (if use_replica fl then [''replica''] else []) @
        (if use_gso fl then [''gso''] else []) @
        (if use_hypersim fl then [''hypersim''] else []),
      val_datasets = [''taskonomy'', ''replica'', ''hypersim'']\<rparr>"

text \<open>
  A sample of the validation set: the label image of shape \<open>(H, W, 3)\<close>, the normals of
  shape \<open>(3, H, W)\<close> and the mask of shape \<open>(C, H, W)\<close>.
\<close>

record 'rgb example =
  rgb :: 'rgb
  segment_semantic :: "pixel plane"
  normal :: "real plane list"
  mask_valid :: "real plane list"
  building :: string

text \<open>
  The label of a pixel in \<^verbatim>\<open>log_validation_example_images\<close>: for \<open>gso\<close> channel 0 times
  \<open>2 ^ 8\<close> plus channel 1, channel 0 otherwise; then 0 where the three channels are 255,
  and 0 where the label is \<open>- 1\<close>.
\<close>

definition decode_label :: "string \<Rightarrow> pixel \<Rightarrow> label" where
  "decode_label dataset px =
     (case px of (c0, c1, c2) \<Rightarrow>
        undefined_to_zero
          (if c0 = 255 \<and> c1 = 255 \<and> c2 = 255 then 0
           else if dataset = ''gso'' then 2 ^ 8 * c0 + c1 else c0))"

text \<open>
  \<^verbatim>\<open>mask_valid.squeeze()\<close> drops every axis of length one of the mask of shape
  \<open>(1, C, S, S)\<close>. What is left multiplies the labels of shape \<open>(H, W)\<close> in place: for
  \<open>C = 1\<close> the plane of the mask (a single entry when \<open>S = 1\<close>); for \<open>C \<noteq> 1\<close> and \<open>S = 1\<close> a
  row of \<open>C\<close> entries; otherwise a tensor of three axes, which cannot be broadcast to two
  and makes the product raise.
\<close>

definition squeeze_all :: "nat \<Rightarrow> bool plane list \<Rightarrow> bool plane option" where
  "squeeze_all image_size chs =
     (if length chs = 1 then Some (hd chs)
      else if image_size = 1 then Some [map (\<lambda>p. p ! 0 ! 0) chs]
      else None)"

text \<open>
  The final labels of a sample (lines 379 to 391). The assignment
  \<^verbatim>\<open>normal_gt[~mask_valid_normal] = 0\<close> raises \<^verbatim>\<open>IndexError\<close> unless the mask, with its
  channels repeated three times, has the shape of the normals.
\<close>

definition final_labels :: "nat \<Rightarrow> string \<Rightarrow> 'rgb example \<Rightarrow> error + label plane" where
  "final_labels image_size dataset example =
     (case make_valid_mask image_size (T3 (mask_valid example)) 4 of
        Inl e \<Rightarrow> Inl e
      | Inr mv \<Rightarrow>
          (case mv of
             M4 [chs] \<Rightarrow>
               if shape3 (normal example) \<noteq> shape3 (repeat_interleave3 chs) then Inl IndexError
               else (case squeeze_all image_size chs of
                       None \<Rightarrow> Inl RuntimeError
                     | Some mask_valid_semantic \<Rightarrow>
                         imul_mask2 (map (map (decode_label dataset)) (segment_semantic example))
                           mask_valid_semantic)
           | _ \<Rightarrow> Inl RuntimeError))"

text \<open>
  \<^verbatim>\<open>all_imgs\<close> is a \<^verbatim>\<open>defaultdict(list)\<close>. An image is rendered by the network, the
  visualizer and the tracking client, none of them part of this code: the entry logged
  under a key is modelled by the index of its sample.
\<close>

type_synonym all_imgs = "string \<Rightarrow> nat list"

definition log_image :: "string \<Rightarrow> string \<Rightarrow> nat \<Rightarrow> all_imgs \<Rightarrow> all_imgs" where
  "log_image kind dataset img_idx all = all(kind @ dataset := all (kind @ dataset) @ [img_idx])"

definition log_images :: "string \<Rightarrow> nat \<Rightarrow> all_imgs \<Rightarrow> all_imgs" where
  "log_images dataset img_idx all =
     log_image ''pred-normal-'' dataset img_idx
       (log_image ''gt-normal-'' dataset img_idx
         (log_image ''pred-semantic-'' dataset img_idx
           (log_image ''gt-semantic-'' dataset img_idx
             (log_image ''rgb-'' dataset img_idx all))))"

definition mask_sum :: "bool plane \<Rightarrow> nat" where
  "mask_sum m = sum_list (map (\<lambda>r. length (filter id r)) m)"

text \<open>The body of the inner loop: \<^verbatim>\<open>continue\<close> leaves \<^verbatim>\<open>all_imgs\<close> as it is.\<close>

definition log_example ::
  "nat \<Rightarrow> string \<Rightarrow> nat \<Rightarrow> 'rgb example \<Rightarrow> all_imgs \<Rightarrow> error + all_imgs" where
  "log_example image_size dataset img_idx example all =
     (case final_labels image_size dataset example of
        Inl e \<Rightarrow> Inl e
      | Inr semantic_gt \<Rightarrow>
          (let mask_valid_semantic = map (map (\<lambda>l. l \<noteq> 0)) semantic_gt
           in if mask_sum mask_valid_semantic = 0 then Inr all
              else Inr (log_images dataset img_idx all)))"

text \<open>
  Whether the body leaves a sample at \<^verbatim>\<open>continue\<close>: its final labels were computed and
  none of them differs from 0 (lines 391 and 392).
\<close>

definition skipped :: "nat \<Rightarrow> string \<Rightarrow> 'rgb example \<Rightarrow> bool" where
  "skipped image_size dataset example =
     (case final_labels image_size dataset example of
        Inl e \<Rightarrow> False
      | Inr semantic_gt \<Rightarrow> mask_sum (map (map (\<lambda>l. l \<noteq> 0)) semantic_gt) = 0)"

fun log_samples ::
  "nat \<Rightarrow> 'rgb example list \<Rightarrow> string \<Rightarrow> nat list \<Rightarrow> all_imgs \<Rightarrow> error + all_imgs" where
  "log_samples image_size valset dataset [] all = Inr all"
| "log_samples image_size valset dataset (img_idx # rest) all =
     (if img_idx < length valset
      then (case log_example image_size dataset img_idx (valset ! img_idx) all of
              Inl e \<Rightarrow> Inl e
            | Inr all' \<Rightarrow> log_samples image_size valset dataset rest all')
      else Inl IndexError)"

fun log_datasets ::
  "nat \<Rightarrow> 'rgb example list \<Rightarrow> val_imgs \<Rightarrow> string list \<Rightarrow> all_imgs \<Rightarrow> error + all_imgs" where
  "log_datasets image_size valset val_samples [] all = Inr all"
| "log_datasets image_size valset val_samples (dataset # rest) all =
     (case log_samples image_size valset dataset (val_samples dataset) all of
        Inl e \<Rightarrow> Inl e
      | Inr all' \<Rightarrow> log_datasets image_size valset val_samples rest all')"

definition log_validation_example_images ::
  "nat \<Rightarrow> string list \<Rightarrow> val_imgs \<Rightarrow> 'rgb example list \<Rightarrow> error + all_imgs" where
  "log_validation_example_images image_size val_ds val_samples valset =
     log_datasets image_size valset val_samples val_ds (\<lambda>_. [])"

text \<open>The keys of \<^verbatim>\<open>all_imgs\<close> under which the images of a dataset are logged.\<close>

definition keys_of :: "string \<Rightarrow> string set" where
  "keys_of dataset = {''rgb-'' @ dataset, ''gt-semantic-'' @ dataset, ''pred-semantic-'' @ dataset,
                      ''gt-normal-'' @ dataset, ''pred-normal-'' @ dataset}"

section \<open>Properties of the dataset predicates\<close>

lemma ai_prefix_split_first:
  assumes "prefix ''ai_'' b"
  shows "prefix ''ai_'' (split_first b)"
proof -
  from assms obtain r where "b = ''ai_'' @ r" by (auto simp: prefix_def)
  then show ?thesis by (simp add: split_first_def)
qed

lemma length_le_foldr_max: "r \<in> set RB \<Longrightarrow> length r \<le> foldr max (map length RB) 0"
  by (induction RB) auto

lemma takeWhile_replicate_append:
  "P x \<Longrightarrow> takeWhile P (replicate n x @ ys) = replicate n x @ takeWhile P ys"
  by (induction n) auto

text \<open>
  Whatever the table of Replica buildings is, some identifier is in no bucket: a run of
  \<open>x\<close> longer than every entry of the table, followed by a hyphen.
\<close>

lemma unclassified_identifier:
  "buckets_of RB (replicate (Suc (foldr max (map length RB) 0)) CHR ''x'' @ ''-'') = 0"
proof -
  let ?n = "Suc (foldr max (map length RB) 0)"
  let ?b = "replicate ?n CHR ''x'' @ ''-''"
  have sf: "split_first ?b = replicate ?n CHR ''x''"
    by (simp add: split_first_def takeWhile_replicate_append del: replicate_Suc)
  have "replicate ?n CHR ''x'' \<notin> set RB"
    using length_le_foldr_max [of "replicate ?n CHR ''x''" RB] by auto
  moreover have "?b \<notin> set RB"
    using length_le_foldr_max [of ?b RB] by auto
  moreover have "\<not> prefix ''ai_'' ?b"
    by (simp add: prefix_def)
  ultimately show ?thesis
    by (simp add: buckets_of_def building_in_gso_def building_in_replica_def
        building_in_hypersim_def building_in_taskonomy_def sf del: replicate_Suc)
qed

text \<open>
  C3, as stated, fails: the identifier \<open>vase-01\<close> has a hyphen, so it is not a Taskonomy
  name, and the part before the hyphen is no Replica building, so it is not a GSO name
  either. It satisfies none of the four predicates.
\<close>

theorem buckets_not_exhaustive:
  "buckets_of [''frl_apartment_0'', ''apartment_0'', ''office_0'', ''room_0'', ''hotel_0'']
     ''vase-01'' = 0"
  by (simp add: buckets_of_def building_in_gso_def building_in_replica_def
      building_in_hypersim_def building_in_taskonomy_def split_first_def)

text \<open>
  C3, amended: when no Replica building name contains a hyphen or starts with \<open>ai_\<close>,
  every scene identifier satisfies at most one of the four predicates, and exactly one
  unless it contains a hyphen, does not start with \<open>ai_\<close> and the part before its first
  hyphen is not a Replica building; such an identifier satisfies none.
\<close>

theorem buckets_of_cases:
  assumes hy: "\<forall>r\<in>set RB. CHR ''-'' \<notin> set r"
      and ai: "\<forall>r\<in>set RB. \<not> prefix ''ai_'' r"
  shows "buckets_of RB b =
           (if CHR ''-'' \<in> set b \<and> \<not> prefix ''ai_'' b \<and> split_first b \<notin> set RB
            then 0 else 1)"
proof -
  have 1: "b \<in> set RB \<Longrightarrow> CHR ''-'' \<notin> set b" using hy by blast
  have 2: "b \<in> set RB \<Longrightarrow> \<not> prefix ''ai_'' b" using ai by blast
  have 3: "prefix ''ai_'' b \<Longrightarrow> split_first b \<notin> set RB"
    using ai ai_prefix_split_first by blast
  show ?thesis
    using 1 2 3
    by (auto simp: buckets_of_def building_in_gso_def building_in_replica_def
        building_in_hypersim_def building_in_taskonomy_def)
qed

theorem buckets_of_cases_witness:
  "buckets_of [''frl_apartment_0'', ''apartment_0'', ''office_0'', ''room_0'', ''hotel_0'']
     ''office_0-cup'' = 1"
  using buckets_of_cases
    [of "[''frl_apartment_0'', ''apartment_0'', ''office_0'', ''room_0'', ''hotel_0'']"
        "''office_0-cup''"]
  by (simp add: split_first_def)

section \<open>Properties of the curation loop\<close>

lemma val_imgs_append_to [simp]:
  "val_imgs (append_to k idx st) k' = (if k' = k then val_imgs st k @ [idx] else val_imgs st k')"
  by (simp add: append_to_def)

lemma frls_append_to [simp]: "frls (append_to k idx st) = frls st"
  by (simp add: append_to_def)

lemma accept_within_quota: "within_quota st \<Longrightarrow> within_quota (accept RB idx b st)"
  by (simp add: accept_def within_quota_def)

lemma accept_total_upper: "n_accepted (accept RB idx b st) \<le> Suc (n_accepted st)"
  by (simp add: accept_def n_accepted_def)

lemma accept_mono: "length (val_imgs st k) \<le> length (val_imgs (accept RB idx b st) k)"
  by (simp add: accept_def)

lemma loop_body_nonempty:
  "valset \<noteq> [] \<Longrightarrow>
   loop_body RB valset st r =
     Inr (accept RB (r mod length valset) (valset ! (r mod length valset)) st)"
proof -
  assume ne: "valset \<noteq> []"
  then have "\<not> int (length valset) - 1 < 0" by (cases valset) auto
  moreover have "nat (int r mod int (length valset)) = r mod length valset"
    by (simp add: nat_mod_as_int)
  ultimately show ?thesis
    by (simp add: loop_body_def randint_def)
qed

lemma loop_body_empty: "loop_body RB [] st r = Inl ValueError"
  by (simp add: loop_body_def randint_def)

lemma loop_body_cases:
  assumes "loop_body RB valset st r = Inr st'"
  shows "valset \<noteq> [] \<and> st' = accept RB (r mod length valset) (valset ! (r mod length valset)) st"
proof (cases "valset = []")
  case True
  with assms show ?thesis by (simp add: loop_body_empty)
next
  case False
  with assms show ?thesis by (simp add: loop_body_nonempty)
qed

lemma loop_states_nonempty [simp]: "loop_states RB valset rs st \<noteq> []"
  by (cases rs) auto

lemma loop_states_invariant:
  assumes "within_quota st" "n_accepted st \<le> 95"
  shows "\<forall>s\<in>set (loop_states RB valset rs st). within_quota s \<and> n_accepted s \<le> 95"
  using assms
proof (induction rs arbitrary: st)
  case Nil
  then show ?case by simp
next
  case (Cons r rs)
  show ?case
  proof (cases "n_accepted st < 95")
    case False
    with Cons.prems show ?thesis by simp
  next
    case True
    show ?thesis
    proof (cases "loop_body RB valset st r")
      case (Inl e)
      with True Cons.prems show ?thesis by simp
    next
      case (Inr st')
      then have st': "st' = accept RB (r mod length valset) (valset ! (r mod length valset)) st"
        using loop_body_cases by blast
      have "within_quota st'" using st' Cons.prems(1) accept_within_quota by simp
      moreover have "n_accepted st' \<le> 95"
        using st' True accept_total_upper [of RB "r mod length valset" "valset ! (r mod length valset)" st]
        by simp
      ultimately have "\<forall>s\<in>set (loop_states RB valset rs st'). within_quota s \<and> n_accepted s \<le> 95"
        using Cons.IH by blast
      with True Inr Cons.prems show ?thesis by simp
    qed
  qed
qed

lemma init_within_quota: "within_quota init_state \<and> n_accepted init_state = 0"
  by (simp add: within_quota_def init_state_def n_accepted_def)

lemma butlast_below_target:
  "\<forall>s\<in>set (butlast (loop_states RB valset rs st)). n_accepted s < 95"
proof (induction rs arbitrary: st)
  case Nil
  then show ?case by simp
next
  case (Cons r rs)
  show ?case
    by (cases "loop_body RB valset st r") (use Cons.IH in auto)
qed

lemma select_loop_last:
  assumes "valset \<noteq> []"
  shows "select_loop RB valset rs st =
           (if 95 \<le> n_accepted (last (loop_states RB valset rs st))
            then Some (Inr (last (loop_states RB valset rs st))) else None)"
proof (induction rs arbitrary: st)
  case Nil
  then show ?case by simp
next
  case (Cons r rs)
  show ?case
    using Cons.IH assms by (simp add: loop_body_nonempty)
qed

lemma fill_bucket:
  assumes ne: "valset \<noteq> []"
      and step: "\<And>idx b s. P b \<Longrightarrow>
                   min q (Suc (length (val_imgs s k))) \<le> length (val_imgs (accept RB idx b s) k)"
  shows "95 \<le> n_accepted (last (loop_states RB valset rs st)) \<or>
         min q (length (val_imgs st k) + length (filter P (drawn valset rs)))
           \<le> length (val_imgs (last (loop_states RB valset rs st)) k)"
proof (induction rs arbitrary: st)
  case Nil
  then show ?case by (simp add: drawn_def)
next
  case (Cons r rs)
  show ?case
  proof (cases "n_accepted st < 95")
    case False
    then show ?thesis by simp
  next
    case True
    let ?b = "valset ! (r mod length valset)"
    let ?st' = "accept RB (r mod length valset) ?b st"
    let ?f = "last (loop_states RB valset rs ?st')"
    have last_eq: "last (loop_states RB valset (r # rs) st) = ?f"
      using True ne by (simp add: loop_body_nonempty)
    have dr: "drawn valset (r # rs) = ?b # drawn valset rs"
      by (simp add: drawn_def)
    from Cons.IH [of ?st'] consider
      (full) "95 \<le> n_accepted ?f"
      | (more) "min q (length (val_imgs ?st' k) + length (filter P (drawn valset rs)))
                  \<le> length (val_imgs ?f k)"
      by blast
    then show ?thesis
    proof cases
      case full
      then show ?thesis unfolding last_eq by blast
    next
      case more
      have "min q (length (val_imgs st k) + length (filter P (drawn valset (r # rs))))
              \<le> min q (length (val_imgs ?st' k) + length (filter P (drawn valset rs)))"
      proof (cases "P ?b")
        case True
        from step [OF True, of st "r mod length valset"] show ?thesis
          using True dr by (simp add: min_def split: if_splits)
      next
        case False
        from accept_mono [of st k RB "r mod length valset" ?b] show ?thesis
          using False dr by (simp add: min_def)
      qed
      with more have "min q (length (val_imgs st k) + length (filter P (drawn valset (r # rs))))
              \<le> length (val_imgs ?f k)"
        by linarith
      then show ?thesis unfolding last_eq by blast
    qed
  qed
qed

lemma accept_hypersim:
  "building_in_hypersim b \<Longrightarrow>
   min 40 (Suc (length (val_imgs s ''hypersim''))) \<le> length (val_imgs (accept RB idx b s) ''hypersim'')"
  by (simp add: accept_def)

lemma accept_replica:
  "building_in_replica RB b \<and> \<not> building_in_hypersim b \<and> \<not> prefix ''frl'' b \<Longrightarrow>
   min 25 (Suc (length (val_imgs s ''replica''))) \<le> length (val_imgs (accept RB idx b s) ''replica'')"
  by (simp add: accept_def)

lemma accept_taskonomy:
  "building_in_taskonomy RB b \<Longrightarrow>
   min 30 (Suc (length (val_imgs s ''taskonomy''))) \<le> length (val_imgs (accept RB idx b s) ''taskonomy'')"
  by (auto simp: accept_def building_in_taskonomy_def building_in_hypersim_def
      building_in_replica_def building_in_gso_def)

lemma diversity_reaches_target:
  assumes "enough_diversity RB valset rs"
  shows "95 \<le> n_accepted (last (loop_states RB valset rs init_state))"
proof -
  let ?f = "last (loop_states RB valset rs init_state)"
  from assms have ne: "valset \<noteq> []" by (simp add: enough_diversity_def)
  have h: "95 \<le> n_accepted ?f \<or> 40 \<le> length (val_imgs ?f ''hypersim'')"
    using fill_bucket [OF ne accept_hypersim, of building_in_hypersim RB rs init_state] assms
    by (simp add: enough_diversity_def init_state_def)
  have r: "95 \<le> n_accepted ?f \<or> 25 \<le> length (val_imgs ?f ''replica'')"
    using fill_bucket [OF ne accept_replica,
        of "\<lambda>b. building_in_replica RB b \<and> \<not> building_in_hypersim b \<and> \<not> prefix ''frl'' b"
           RB rs init_state] assms
    by (simp add: enough_diversity_def init_state_def)
  have t: "95 \<le> n_accepted ?f \<or> 30 \<le> length (val_imgs ?f ''taskonomy'')"
    using fill_bucket [OF ne accept_taskonomy, of "building_in_taskonomy RB" RB rs init_state] assms
    by (simp add: enough_diversity_def init_state_def)
  from h r t show ?thesis by (auto simp: n_accepted_def)
qed

text \<open>
  C4, amended: at every state the loop visits, no bucket exceeds its quota (hypersim 40,
  replica 25, gso 20, taskonomy 30) and at most 95 samples are accepted; and for draws
  that are diverse enough the loop returns, with exactly 95 accepted samples: 95 is the
  sum of the hypersim, replica and taskonomy quotas, the gso quota is not part of it.
\<close>

theorem quotas_and_termination:
  "(\<forall>s\<in>set (loop_states RB valset rs init_state). within_quota s \<and> n_accepted s \<le> 95) \<and>
   (enough_diversity RB valset rs \<longrightarrow>
      (\<exists>st. select_loop RB valset rs init_state = Some (Inr st) \<and> n_accepted st = 95))"
proof (intro conjI impI)
  show inv: "\<forall>s\<in>set (loop_states RB valset rs init_state). within_quota s \<and> n_accepted s \<le> 95"
    using loop_states_invariant [of init_state RB valset rs] init_within_quota by simp
  assume d: "enough_diversity RB valset rs"
  let ?f = "last (loop_states RB valset rs init_state)"
  from d have ne: "valset \<noteq> []" by (simp add: enough_diversity_def)
  have "?f \<in> set (loop_states RB valset rs init_state)" by simp
  with inv have "n_accepted ?f \<le> 95" by blast
  with diversity_reaches_target [OF d] have "n_accepted ?f = 95" by simp
  then show "\<exists>st. select_loop RB valset rs init_state = Some (Inr st) \<and> n_accepted st = 95"
    using select_loop_last [OF ne, of RB rs init_state] by simp
qed


lemma start_in_loop_states: "st \<in> set (loop_states RB valset rs st)"
proof (cases rs)
  case Nil
  show ?thesis unfolding Nil loop_states.simps by (rule list.set_intros(1))
next
  case (Cons r rs')
  show ?thesis unfolding Cons loop_states.simps by (rule list.set_intros(1))
qed

theorem quotas_and_termination_witness:
  "enough_diversity [''frl_apartment_0'', ''office_0'']
     [''ai_001_001'', ''office_0'', ''office_0-cup'', ''wiconisco'']
     (replicate 40 0 @ replicate 25 1 @ replicate 30 3) \<and>
   map_option (map_sum id n_accepted)
     (select_loop [''frl_apartment_0'', ''office_0'']
        [''ai_001_001'', ''office_0'', ''office_0-cup'', ''wiconisco'']
        (replicate 40 0 @ replicate 25 1 @ replicate 30 3) init_state) = Some (Inr 95) \<and>
   within_quota init_state"
proof -
  have d: "enough_diversity [''frl_apartment_0'', ''office_0'']
     [''ai_001_001'', ''office_0'', ''office_0-cup'', ''wiconisco'']
     (replicate 40 0 @ replicate 25 1 @ replicate 30 3)"
    by code_simp
  have m: "init_state \<in> set (loop_states [''frl_apartment_0'', ''office_0'']
        [''ai_001_001'', ''office_0'', ''office_0-cup'', ''wiconisco'']
        (replicate 40 0 @ replicate 25 1 @ replicate 30 3) init_state)"
    by (rule start_in_loop_states)
  from quotas_and_termination
    [of "[''frl_apartment_0'', ''office_0'']"
        "[''ai_001_001'', ''office_0'', ''office_0-cup'', ''wiconisco'']"
        "replicate 40 0 @ replicate 25 1 @ replicate 30 3"] d m
  show ?thesis by auto
qed

text \<open>
  C4, as stated, fails: the pool below holds scenes of all four datasets, and the loop
  returns with 95 accepted samples, 40 + 25 + 0 + 30, while the sum of the four quotas
  is 115 and the gso bucket is empty.
\<close>

theorem returns_before_sum_of_quotas:
  "map_option (map_sum id (\<lambda>s. (bucket_sizes s, n_accepted s = 40 + 25 + 20 + 30)))
     (select_loop [''frl_apartment_0'', ''office_0'']
        [''ai_001_001'', ''office_0'', ''office_0-cup'', ''wiconisco'']
        (replicate 40 0 @ replicate 25 1 @ replicate 30 3) init_state)
   = Some (Inr ((40, 25, 0, 30), False))"
  by code_simp

lemma sterile_accept:
  assumes "val_imgs st ''gso'' = [] \<and> val_imgs st ''taskonomy'' = []"
  shows "val_imgs (accept RB idx ''ai_001_001'' st) ''gso'' = [] \<and>
         val_imgs (accept RB idx ''ai_001_001'' st) ''taskonomy'' = []"
  using assms
  by (simp add: accept_def building_in_gso_def building_in_taskonomy_def)

lemma sterile_pool_never_returns:
  assumes "within_quota st" "val_imgs st ''gso'' = [] \<and> val_imgs st ''taskonomy'' = []"
  shows "select_loop RB [''ai_001_001''] rs st = None"
  using assms
proof (induction rs arbitrary: st)
  case Nil
  then show ?case by (simp add: within_quota_def n_accepted_def)
next
  case (Cons r rs)
  let ?st' = "accept RB 0 ''ai_001_001'' st"
  have lt: "n_accepted st < 95"
    using Cons.prems by (simp add: within_quota_def n_accepted_def)
  have "select_loop RB [''ai_001_001''] rs ?st' = None"
    using Cons.IH [of ?st'] accept_within_quota [OF Cons.prems(1)] sterile_accept [OF Cons.prems(2)]
    by blast
  then show ?case
    using lt by (simp add: loop_body_nonempty)
qed

text \<open>
  C5: the loop leaves exactly when the number of accepted samples reaches 95: every
  state before the last one a run visits has fewer, and on a non-empty validation set
  the run has returned iff its last state has 95. For the pool of one Hypersim scene at
  most 40 + 25 samples are ever accepted, and the loop does not return, whatever the
  table of Replica buildings and however many numbers are drawn.
\<close>

theorem loop_leaves_at_95:
  "(\<forall>s\<in>set (butlast (loop_states RB valset rs init_state)). n_accepted s < 95) \<and>
   (valset \<noteq> [] \<longrightarrow>
      select_loop RB valset rs init_state =
        (if n_accepted (last (loop_states RB valset rs init_state)) = 95
         then Some (Inr (last (loop_states RB valset rs init_state))) else None)) \<and>
   (\<forall>RB' rs'. select_val_samples_for_datasets RB' [''ai_001_001''] rs' = None)"
proof (intro conjI impI allI)
  show "\<forall>s\<in>set (butlast (loop_states RB valset rs init_state)). n_accepted s < 95"
    by (rule butlast_below_target)
next
  assume ne: "valset \<noteq> []"
  let ?f = "last (loop_states RB valset rs init_state)"
  have "?f \<in> set (loop_states RB valset rs init_state)" by simp
  then have "n_accepted ?f \<le> 95"
    using loop_states_invariant [of init_state RB valset rs] init_within_quota by simp
  then show "select_loop RB valset rs init_state = (if n_accepted ?f = 95 then Some (Inr ?f) else None)"
    using select_loop_last [OF ne, of RB rs init_state] by simp
next
  fix RB' rs'
  have "select_loop RB' [''ai_001_001''] rs' init_state = None"
    using sterile_pool_never_returns [of init_state RB' rs'] init_within_quota
    by (simp add: init_state_def)
  then show "select_val_samples_for_datasets RB' [''ai_001_001''] rs' = None"
    by (simp add: select_val_samples_for_datasets_def)
qed

theorem loop_leaves_at_95_witness:
  "[''ai_001_001'', ''office_0'', ''office_0-cup'', ''wiconisco''] \<noteq> [] \<and>
   n_accepted (last (loop_states [''frl_apartment_0'', ''office_0'']
        [''ai_001_001'', ''office_0'', ''office_0-cup'', ''wiconisco'']
        (replicate 40 0 @ replicate 25 1 @ replicate 30 3) init_state)) = 95 \<and>
   select_loop [''frl_apartment_0'', ''office_0'']
        [''ai_001_001'', ''office_0'', ''office_0-cup'', ''wiconisco'']
        (replicate 40 0 @ replicate 25 1 @ replicate 30 3) init_state =
     Some (Inr (last (loop_states [''frl_apartment_0'', ''office_0'']
        [''ai_001_001'', ''office_0'', ''office_0-cup'', ''wiconisco'']
        (replicate 40 0 @ replicate 25 1 @ replicate 30 3) init_state)))"
proof -
  have e: "n_accepted (last (loop_states [''frl_apartment_0'', ''office_0'']
        [''ai_001_001'', ''office_0'', ''office_0-cup'', ''wiconisco'']
        (replicate 40 0 @ replicate 25 1 @ replicate 30 3) init_state)) = 95"
    by code_simp
  from loop_leaves_at_95
    [of "[''frl_apartment_0'', ''office_0'']"
        "[''ai_001_001'', ''office_0'', ''office_0-cup'', ''wiconisco'']"
        "replicate 40 0 @ replicate 25 1 @ replicate 30 3"] e
  show ?thesis by simp
qed

lemma accept_frl_counted:
  assumes "frl_counted valset st"
  shows "frl_counted valset (accept RB idx (valset ! idx) st)"
  using assms
  by (auto simp: frl_counted_def frl_in_replica_def accept_def)

lemma loop_states_frl:
  assumes "frl_counted valset st"
  shows "\<forall>s\<in>set (loop_states RB valset rs st). frl_in_replica valset s \<le> 16"
  using assms
proof (induction rs arbitrary: st)
  case Nil
  then show ?case by (simp add: frl_counted_def)
next
  case (Cons r rs)
  have here: "frl_in_replica valset st \<le> 16" using Cons.prems by (simp add: frl_counted_def)
  show ?case
  proof (cases "n_accepted st < 95")
    case False
    with here show ?thesis by simp
  next
    case True
    show ?thesis
    proof (cases "loop_body RB valset st r")
      case (Inl e)
      with True here show ?thesis by simp
    next
      case (Inr st')
      then have "st' = accept RB (r mod length valset) (valset ! (r mod length valset)) st"
        using loop_body_cases by blast
      then have "frl_counted valset st'"
        using accept_frl_counted [OF Cons.prems] by simp
      from Cons.IH [OF this] here True Inr show ?thesis by simp
    qed
  qed
qed

text \<open>What the code guarantees: at most 16 \<open>frl\<close> scenes in the replica bucket.\<close>

lemma frl_at_most_16:
  "\<forall>s\<in>set (loop_states RB valset rs init_state). frl_in_replica valset s \<le> 16"
  by (rule loop_states_frl) (simp add: frl_counted_def frl_in_replica_def init_state_def)

text \<open>
  C6: the guard \<^verbatim>\<open>frls > 15\<close> lets the sixteenth \<open>frl\<close> scene through. In the run below
  the returned replica bucket holds 25 samples, 16 of them \<open>frl\<close> scenes.
\<close>

theorem sixteen_frl_accepted:
  "map_option (map_sum id
       (\<lambda>s. (length (val_imgs s ''replica''),
             frl_in_replica [''ai_001_001'', ''office_0'', ''frl_apartment_0'', ''wiconisco''] s)))
     (select_loop [''frl_apartment_0'', ''office_0'']
        [''ai_001_001'', ''office_0'', ''frl_apartment_0'', ''wiconisco'']
        (replicate 40 0 @ replicate 20 2 @ replicate 9 1 @ replicate 30 3) init_state)
   = Some (Inr (25, 16))"
  by code_simp

section \<open>Properties of the valid mask\<close>

subsection \<open>The nearest index in float32\<close>

lemma bit_length_upper: "n < 2 ^ bit_length n"
proof (induction n rule: bit_length.induct)
  case (1 n)
  show ?case
  proof (cases "n = 0")
    case True
    then show ?thesis by (simp add: bit_length.simps)
  next
    case False
    with 1 have "n div 2 < 2 ^ bit_length (n div 2)" by simp
    then have "n < 2 * 2 ^ bit_length (n div 2)" by linarith
    with False show ?thesis by (simp add: bit_length.simps [of n])
  qed
qed

lemma bit_length_lower: "0 < n \<Longrightarrow> 2 ^ bit_length n \<le> 2 * n"
proof (induction n rule: bit_length.induct)
  case (1 n)
  show ?case
  proof (cases "n div 2 = 0")
    case True
    then have "n < 2" by (simp add: div_eq_0_iff)
    with 1(2) have "n = 1" by linarith
    then show ?thesis
      by (simp add: bit_length.simps [of "Suc 0"] bit_length.simps [of 0])
  next
    case False
    with 1 have "2 ^ bit_length (n div 2) \<le> 2 * (n div 2)" by simp
    also have "\<dots> \<le> n" by simp
    finally show ?thesis using 1(2) by (simp add: bit_length.simps [of n])
  qed
qed

lemma round_even_exact: "0 < q \<Longrightarrow> round_even (q * m) q = m"
  by (simp add: round_even_def)

text \<open>A quotient that a float32 represents exactly is not changed by the rounding.\<close>

lemma round24_exact:
  assumes c: "0 < c" and d: "0 < d" "d < 2 ^ 24"
  shows "\<exists>K>0. round24 (c * d) (c * 2 ^ j) = (K * d, K * 2 ^ j)"
proof -
  let ?p = "c * d" and ?q = "c * 2 ^ j"
  let ?bp = "bit_length ?p" and ?bq = "bit_length ?q"
  have p0: "0 < ?p" and q0: "0 < ?q" using c d by auto
  have "2 ^ ?bp * 2 ^ j \<le> 2 * ?p * (2::nat) ^ j"
    using bit_length_lower [OF p0] by (rule mult_le_mono1)
  also have "\<dots> = 2 * d * ?q" by simp
  also have "\<dots> < 2 * d * 2 ^ ?bq"
    using bit_length_upper [of ?q] d by simp
  also have "\<dots> \<le> 2 * 2 ^ 24 * 2 ^ ?bq"
    using d by simp
  finally have "(2::nat) ^ (?bp + j) < 2 ^ (25 + ?bq)"
    by (simp add: power_add)
  then have "?bp + j < 25 + ?bq" by simp
  then have sh: "j \<le> 24 + ?bq - ?bp" and dn: "?bp - (24 + ?bq) = 0" by auto
  define s where "s = 24 + ?bq - ?bp - j"
  have up: "24 + ?bq - ?bp = j + s" using sh by (simp add: s_def)
  define M where "M = d * 2 ^ s"
  have M0: "0 < M" using d by (simp add: M_def)
  let ?n = "?p * 2 ^ (24 + ?bq - ?bp)"
  have n: "?n = ?q * M" by (simp add: up M_def power_add)
  let ?mant = "if ?n < 2 ^ 24 * ?q then round_even ?n ?q else 2 * round_even ?n (2 * ?q)"
  have mant: "?mant = M"
  proof (cases "?n < 2 ^ 24 * ?q")
    case True
    then show ?thesis using round_even_exact [OF q0, of M] by (simp only: n if_True)
  next
    case False
    then have "2 ^ 24 \<le> M" using q0 by (simp only: n) (simp add: not_less)
    then have "s \<noteq> 0" using d by (cases "s = 0") (auto simp: M_def)
    then obtain s' where s': "s = Suc s'" by (cases s) auto
    have M2: "M = 2 * (d * 2 ^ s')" by (simp add: M_def s')
    have "round_even ?n (2 * ?q) = d * 2 ^ s'"
      using round_even_exact [of "2 * ?q" "d * 2 ^ s'"] q0
      by (simp only: n M2) (simp add: mult_ac)
    with False show ?thesis by (simp only: if_False M2)
  qed
  have "round24 ?p ?q = (?mant * ?p * ?q, ?q * ?n)"
    using p0 by (simp add: round24_def Let_def dn)
  also have "\<dots> = (M * ?p * ?q, ?q * (?q * M))"
    by (simp only: mant) (simp only: n)
  also have "\<dots> = ((M * c * ?q) * d, (M * c * ?q) * 2 ^ j)"
    by (simp add: mult_ac)
  finally have "round24 ?p ?q = ((M * c * ?q) * d, (M * c * ?q) * 2 ^ j)" .
  moreover have "0 < M * c * ?q" using M0 c q0 by simp
  ultimately show ?thesis by blast
qed

text \<open>
  Where the output size is the input size times a power of two (and below \<open>2 ^ 24\<close>),
  the float32 computation of the nearest index is exact.
\<close>

lemma nearest_idx_exact:
  assumes n: "0 < n" and dst: "dst < n * 2 ^ j" and small: "n * 2 ^ j \<le> 2 ^ 24"
  shows "nearest_idx dst n (n * 2 ^ j) = dst div 2 ^ j"
proof -
  from round24_exact [of n 1 j] n obtain K1
    where K1: "0 < K1" "round24 n (n * 2 ^ j) = (K1, K1 * 2 ^ j)" by auto
  have lt: "dst div 2 ^ j < n"
    using dst by (simp add: less_mult_imp_div_less)
  then have le: "dst div 2 ^ j \<le> n - 1" by simp
  show ?thesis
  proof (cases "dst = 0")
    case True
    then show ?thesis by (simp add: nearest_idx_def round24_def)
  next
    case False
    then have d: "0 < dst" "dst < 2 ^ 24" using dst small by auto
    from round24_exact [of 1 dst 0] d obtain K2
      where K2: "0 < K2" "round24 dst 1 = (K2 * dst, K2)" by auto
    from round24_exact [of "K2 * K1" dst j] d K1 K2 obtain K3
      where K3: "0 < K3" "round24 (K2 * K1 * dst) (K2 * K1 * 2 ^ j) = (K3 * dst, K3 * 2 ^ j)"
      by auto
    have P: "round24 (K2 * dst * K1) (K2 * (K1 * 2 ^ j)) = (K3 * dst, K3 * 2 ^ j)"
      using K3(2) by (simp add: mult_ac)
    have "nearest_idx dst n (n * 2 ^ j) =
            min (fst (round24 (K2 * dst * K1) (K2 * (K1 * 2 ^ j))) div
                 snd (round24 (K2 * dst * K1) (K2 * (K1 * 2 ^ j)))) (n - 1)"
      unfolding nearest_idx_def Let_def K1(2) K2(2) fst_conv snd_conv by (rule refl)
    also have "\<dots> = min ((K3 * dst) div (K3 * 2 ^ j)) (n - 1)"
      by (simp only: P fst_conv snd_conv)
    also have "(K3 * dst) div (K3 * 2 ^ j) = dst div 2 ^ j"
      using K3(1) by simp
    finally show ?thesis using le by simp
  qed
qed

lemma nearest_idx_same:
  assumes "dst < S" "S \<le> 2 ^ 24"
  shows "nearest_idx dst S S = dst"
  using nearest_idx_exact [of S dst 0] assms by simp

lemma nearest_idx_pool:
  assumes k: "k = 2 ^ j" and dv: "k dvd S" and y: "y < S" and S: "S \<le> 2 ^ 24"
  shows "nearest_idx y (S div k) S = y div k"
proof -
  from dv obtain m where m: "S = k * m" by (auto elim: dvdE)
  with y have "m \<noteq> 0" by (cases "m = 0") auto
  then have n: "0 < S div k" by (simp add: m k)
  have e: "S div k * 2 ^ j = S" using dv by (simp add: k)
  from nearest_idx_exact [of "S div k" y j] n y S e show ?thesis by (simp add: k)
qed

text \<open>
  Where the quotient of the sizes is not a float32 the rounding shows: resizing 2 rows to
  82, the output row 41 reads the input row 0, not the row 1 of the exact quotient.
\<close>

lemma bit_length_numeral:
  "bit_length 0 = 0" "bit_length (Suc 0) = 1"
  "bit_length (numeral k) = Suc (bit_length (numeral k div 2))"
  by (simp_all add: bit_length.simps [of 0] bit_length.simps [of "Suc 0"]
      bit_length.simps [of "numeral k"])

lemma round24_scale: "round24 2 82 = (2147483568, 88046829568)"
  by (simp add: round24_def Let_def bit_length_numeral round_even_def)

lemma round24_dst: "round24 41 (Suc 0) = (881328128, 21495808)"
  by (simp add: round24_def Let_def bit_length_numeral round_even_def)

lemma round24_prod:
  "fst (round24 (881328128 * 2147483568) (21495808 * 88046829568))
     < snd (round24 (881328128 * 2147483568) (21495808 * 88046829568))"
  by (simp add: round24_def Let_def bit_length_numeral round_even_def)

lemma nearest_idx_rounded: "nearest_idx 41 2 82 = 0"
proof -
  have "nearest_idx 41 2 82 =
          min (fst (round24 (881328128 * 2147483568) (21495808 * 88046829568)) div
               snd (round24 (881328128 * 2147483568) (21495808 * 88046829568))) (2 - 1)"
    unfolding nearest_idx_def Let_def round24_scale One_nat_def round24_dst fst_conv snd_conv
    by (rule refl)
  also have "\<dots> = 0"
    using round24_prod by (simp only: div_less min_0L)
  finally show ?thesis .
qed

subsection \<open>The mask, by the number of its axes\<close>

lemma make_valid_mask_T3:
  "make_valid_mask S (T3 x) k =
     (if k = 0 \<or> S = 0 \<or> x = [] \<or> list_ex (\<lambda>p. height p < k \<or> width p < k) x
      then Inl RuntimeError else Inr (M4 [map (valid_plane S k) x]))"
  by (simp add: make_valid_mask_def batch_of_def)

lemma make_valid_mask_T4:
  "make_valid_mask S (T4 x) k =
     (if k = 0 \<or> S = 0 \<or> list_ex (\<lambda>c. c = []) x \<or>
         list_ex (\<lambda>p. height p < k \<or> width p < k) (concat x)
      then Inl RuntimeError else Inr (M4 (map (map (valid_plane S k)) x)))"
  by (simp add: make_valid_mask_def batch_of_def)

lemma make_valid_mask_T5:
  "make_valid_mask S (T5 x) k =
     (if k = 0 \<or> S = 0 \<or> list_ex (\<lambda>c. c = []) (concat x) \<or>
         list_ex (\<lambda>p. height p < k \<or> width p < k) (concat (concat x))
      then Inl RuntimeError
      else Inr (M5 (map (\<lambda>c. [c]) (map (map (valid_plane S k)) (concat x)))))"
  by (simp add: make_valid_mask_def batch_of_def)

lemma concat_singletons: "concat (map (\<lambda>c. [c]) xs) = xs"
  by (induction xs) auto

text \<open>The planes of the result are the planes of the input, each one processed alone.\<close>

lemma make_valid_mask_planes:
  assumes "make_valid_mask S t k = Inr v"
  shows "planes_of_out v = map (valid_plane S k) (planes_of t) \<and> 0 < k \<and> 0 < S \<and>
         (\<forall>c\<in>set (batch_of t). c \<noteq> []) \<and>
         (\<forall>p\<in>set (planes_of t). k \<le> height p \<and> k \<le> width p)"
proof (cases t)
  case (T3 x)
  with assms show ?thesis
    by (auto simp: make_valid_mask_T3 planes_of_def planes_of_out_def batch_of_def list_ex_iff
        not_less split: if_splits)
next
  case (T4 x)
  with assms show ?thesis
    by (auto simp: make_valid_mask_T4 planes_of_def planes_of_out_def batch_of_def list_ex_iff
        map_concat not_less split: if_splits)
next
  case (T5 x)
  let ?ys = "map (map (valid_plane S k)) (concat x)"
  from assms T5 have ok: "0 < k" "0 < S"
    and ch: "\<forall>c\<in>set (concat x). c \<noteq> []"
    and big: "\<forall>p\<in>set (concat (concat x)). k \<le> height p \<and> k \<le> width p"
    and v: "v = M5 (map (\<lambda>c. [c]) ?ys)"
    by (auto simp: make_valid_mask_T5 list_ex_iff not_less split: if_splits)
  have "planes_of_out v = concat ?ys"
    unfolding v planes_of_out_def by (simp only: mask_out.case concat_singletons)
  also have "\<dots> = map (valid_plane S k) (concat (concat x))"
    by (simp only: map_concat)
  finally show ?thesis
    using ok ch big T5 by (simp add: planes_of_def batch_of_def)
qed

lemma make_valid_mask_succeeds:
  assumes "0 < k" "0 < S" "\<forall>c\<in>set (batch_of t). c \<noteq> []"
    "\<forall>p\<in>set (planes_of t). k \<le> height p \<and> k \<le> width p"
  shows "\<exists>v. make_valid_mask S t k = Inr v"
proof (cases t)
  case (T3 x)
  with assms show ?thesis
    by (force simp: make_valid_mask_T3 planes_of_def batch_of_def list_ex_iff)
next
  case (T4 x)
  with assms show ?thesis
    by (force simp: make_valid_mask_T4 planes_of_def batch_of_def list_ex_iff)
next
  case (T5 x)
  with assms show ?thesis
    by (force simp: make_valid_mask_T5 planes_of_def batch_of_def list_ex_iff)
qed

subsection \<open>Rectangular planes\<close>

lemma rect_height: "rect h w p \<Longrightarrow> height p = h"
  by (simp add: rect_def height_def)

lemma rect_width: "rect h w p \<Longrightarrow> 0 < h \<Longrightarrow> width p = w"
  by (cases p) (auto simp: rect_def width_def)

lemma rect_row: "rect h w p \<Longrightarrow> i < h \<Longrightarrow> length (p ! i) = w"
  by (simp add: rect_def list_all_length)

lemma rect_map: "rect h w p \<Longrightarrow> rect h w (map (map f) p)"
  by (simp add: rect_def list_all_length)

lemma rect_interpolate: "rect S S (interpolate S p)"
  by (simp add: rect_def interpolate_def list_all_length)

lemma rect_valid_plane: "rect S S (valid_plane S k p)"
  by (simp add: valid_plane_def rect_map rect_interpolate)

lemma interpolate_nth:
  "y < S \<Longrightarrow> x < S \<Longrightarrow>
   interpolate S p ! y ! x = p ! nearest_idx y (height p) S ! nearest_idx x (width p) S"
  by (simp add: interpolate_def)

lemma pool_size: "0 < k \<Longrightarrow> k \<le> n \<Longrightarrow> (n - k) div k + 1 = n div k" for k n :: nat
  using le_div_geq [of k n] by simp

lemma max_pool2d_height:
  assumes "0 < k" "k \<le> height p"
  shows "height (max_pool2d k p) = height p div k"
  unfolding max_pool2d_def pool_size [OF assms] by (simp add: height_def)

lemma max_pool2d_width:
  assumes "0 < k" "k \<le> height p" "k \<le> width p"
  shows "width (max_pool2d k p) = width p div k"
proof -
  have w: "(width p - k) div k + 1 = width p div k"
    using assms by (simp only: pool_size)
  have "[0..<(height p - k) div k + 1] = 0 # [1..<(height p - k) div k + 1]"
    by (simp add: upt_conv_Cons del: upt_Suc)
  then show ?thesis
    unfolding max_pool2d_def w by (simp add: width_def del: upt_Suc)
qed

lemma max_pool2d_nth:
  assumes "0 < k" "k \<le> height p" "k \<le> width p" "i < height p div k" "j < width p div k"
  shows "max_pool2d k p ! i ! j = Max (set (pool_window k p i j))"
proof -
  have h: "(height p - k) div k + 1 = height p div k"
    using assms by (simp only: pool_size)
  have w: "(width p - k) div k + 1 = width p div k"
    using assms by (simp only: pool_size)
  show ?thesis
    unfolding max_pool2d_def h w using assms by simp
qed

lemma set_pool_window:
  "set (pool_window k p i j) = (\<lambda>(di, dj). p ! (i * k + di) ! (j * k + dj)) ` ({..<k} \<times> {..<k})"
  by (auto simp: pool_window_def image_iff) (metis atLeast0LessThan lessThan_iff)+

lemma Max_eq_0_iff:
  fixes A :: "real set"
  assumes "finite A" "A \<noteq> {}" "\<forall>a\<in>A. 0 \<le> a"
  shows "Max A = 0 \<longleftrightarrow> (\<forall>a\<in>A. a = 0)"
proof
  assume m: "Max A = 0"
  show "\<forall>a\<in>A. a = 0"
  proof
    fix a assume a: "a \<in> A"
    then have "a \<le> 0" using Max_ge [OF assms(1) a] m by simp
    with assms(3) a show "a = 0" by fastforce
  qed
next
  assume "\<forall>a\<in>A. a = 0"
  then show "Max A = 0" using Max_in [OF assms(1,2)] by blast
qed

lemma window_entry_bound:
  fixes y k S d :: nat
  assumes "k dvd S" "y < S" "d < k"
  shows "y div k * k + d < S"
proof -
  from assms obtain m where m: "S = k * m" by (auto elim: dvdE)
  from assms have k: "0 < k" by auto
  have "y div k < m" using assms(2) k by (simp add: m less_mult_imp_div_less mult.commute)
  then have "Suc (y div k) \<le> m" by simp
  then have "Suc (y div k) * k \<le> m * k" by (rule mult_le_mono1)
  then show ?thesis using assms(3) by (simp add: m mult.commute)
qed

text \<open>
  On a square mask whose side the pool size, a power of two, divides, a pixel is valid iff
  every entry of the mask in its block of \<open>k\<close> by \<open>k\<close> pixels is 1.
\<close>

lemma valid_plane_block:
  assumes r: "rect S S p" and le: "\<forall>r\<in>set p. \<forall>v\<in>set r. v \<le> 1"
      and k: "k dvd S" and S: "0 < S" and y: "y < S" and x: "x < S"
      and kp: "k = 2 ^ j" and small: "S \<le> 2 ^ 24"
  shows "valid_plane S k p ! y ! x \<longleftrightarrow>
           (\<forall>di<k. \<forall>dj<k. p ! (y div k * k + di) ! (x div k * k + dj) = 1)"
proof -
  let ?q = "map (map (\<lambda>v. 1 - v)) p"
  from k S have k0: "0 < k" and kS: "k \<le> S" by (auto dest: dvd_imp_le)
  have rq: "rect S S ?q" using r by (rule rect_map)
  have hq: "height ?q = S" using rq by (rule rect_height)
  have wq: "width ?q = S" using rq S by (rule rect_width)
  have hp: "height (max_pool2d k ?q) = S div k"
    using max_pool2d_height [of k ?q] k0 kS hq by simp
  have wp: "width (max_pool2d k ?q) = S div k"
    using max_pool2d_width [of k ?q] k0 kS hq wq by simp
  have yk: "y div k < S div k" and xk: "x div k < S div k"
    using y x k k0 by (auto simp: div_less_iff_less_mult elim!: dvdE)
  have entry: "?q ! i ! j = 1 - p ! i ! j" if "i < S" "j < S" for i j
    using that r by (simp add: rect_def list_all_length)
  have in_range: "p ! i ! j \<le> 1" if "i < S" "j < S" for i j
  proof -
    from that r have "p ! i \<in> set p" "p ! i ! j \<in> set (p ! i)"
      by (auto simp: rect_def list_all_length)
    with le show ?thesis by blast
  qed
  let ?A = "set (pool_window k ?q (y div k) (x div k))"
  have A: "?A = (\<lambda>(di, dj). ?q ! (y div k * k + di) ! (x div k * k + dj)) ` ({..<k} \<times> {..<k})"
    by (rule set_pool_window)
  have fin: "finite ?A" by simp
  have ne: "?A \<noteq> {}" using k0 by (auto simp: A)
  have nonneg: "\<forall>a\<in>?A. 0 \<le> a"
    unfolding A
    using window_entry_bound [OF k y] window_entry_bound [OF k x] entry in_range by auto
  have "valid_plane S k p ! y ! x \<longleftrightarrow> max_pool2d k ?q ! (y div k) ! (x div k) = 0"
    using y x r
    by (simp add: valid_plane_def interpolate_nth hp wp nearest_idx_pool [OF kp k _ small]
        rect_interpolate [THEN rect_row] interpolate_def)
  also have "\<dots> \<longleftrightarrow> Max ?A = 0"
    using max_pool2d_nth [of k ?q "y div k" "x div k"] k0 kS hq wq yk xk by simp
  also have "\<dots> \<longleftrightarrow> (\<forall>a\<in>?A. a = 0)"
    by (rule Max_eq_0_iff [OF fin ne nonneg])
  also have "\<dots> \<longleftrightarrow> (\<forall>di<k. \<forall>dj<k. p ! (y div k * k + di) ! (x div k * k + dj) = 1)"
    unfolding A
    using window_entry_bound [OF k y] window_entry_bound [OF k x] entry by auto
  finally show ?thesis .
qed




lemma block_inside_block:
  fixes y k1 k2 d :: nat
  assumes "k1 dvd k2" "0 < k2" "d < k1"
  shows "\<exists>d'<k2. y div k1 * k1 + d = y div k2 * k2 + d'"
proof -
  from assms obtain c where c: "k2 = k1 * c" by (auto elim: dvdE)
  with assms have c0: "0 < c" and k10: "0 < k1" by auto
  define a where "a = y div k1 div c"
  define b where "b = y div k1 mod c"
  have q: "y div k1 = a * c + b" by (simp add: a_def b_def)
  have yk2: "y div k2 = a" by (simp add: c div_mult2_eq a_def)
  have "y div k1 * k1 + d = (a * c + b) * k1 + d"
    by (simp only: q)
  also have "\<dots> = a * (k1 * c) + (b * k1 + d)"
    by (simp add: algebra_simps)
  also have "\<dots> = a * k2 + (b * k1 + d)"
    by (simp only: c)
  finally have e: "y div k1 * k1 + d = y div k2 * k2 + (b * k1 + d)"
    by (simp only: yk2)
  have "b < c" using c0 by (simp add: b_def)
  then have "Suc b \<le> c" by simp
  then have "Suc b * k1 \<le> c * k1" by (rule mult_le_mono1)
  then have "b * k1 + d < k2" using assms(3) by (simp add: c mult.commute)
  with e show ?thesis by blast
qed

lemma valid_plane_mono:
  assumes r: "rect S S p" and le: "\<forall>r\<in>set p. \<forall>v\<in>set r. v \<le> 1"
      and kp1: "k1 = 2 ^ i" and kp2: "k2 = 2 ^ j" and ij: "i \<le> j"
      and k2: "k2 dvd S" and S: "0 < S" and small: "S \<le> 2 ^ 24"
      and y: "y < S" and x: "x < S"
      and v: "valid_plane S k2 p ! y ! x"
  shows "valid_plane S k1 p ! y ! x"
proof -
  have k12: "k1 dvd k2" unfolding kp1 kp2 using ij by (rule le_imp_power_dvd)
  from k2 S have k20: "0 < k2" by (auto dest: dvd_imp_le)
  have k1: "k1 dvd S" using k12 k2 by (rule dvd_trans)
  from v have all2: "\<forall>di<k2. \<forall>dj<k2. p ! (y div k2 * k2 + di) ! (x div k2 * k2 + dj) = 1"
    using valid_plane_block [OF r le k2 S y x kp2 small] by simp
  have "p ! (y div k1 * k1 + di) ! (x div k1 * k1 + dj) = 1" if "di < k1" "dj < k1" for di dj
  proof -
    from block_inside_block [OF k12 k20 that(1), of y] obtain di'
      where di': "di' < k2" "y div k1 * k1 + di = y div k2 * k2 + di'" by blast
    from block_inside_block [OF k12 k20 that(2), of x] obtain dj'
      where dj': "dj' < k2" "x div k1 * k1 + dj = x div k2 * k2 + dj'" by blast
    from all2 di' dj' show ?thesis by simp
  qed
  then show ?thesis
    using valid_plane_block [OF r le k1 S y x kp1 small] by simp
qed

lemma plane_rows:
  assumes r: "rect h w p"
  shows "map (\<lambda>i. map (\<lambda>j. p ! i ! j) [0..<w]) [0..<h] = p"
proof (rule nth_equalityI)
  show "length (map (\<lambda>i. map (\<lambda>j. p ! i ! j) [0..<w]) [0..<h]) = length p"
    using r by (simp add: rect_def)
next
  fix i assume "i < length (map (\<lambda>i. map (\<lambda>j. p ! i ! j) [0..<w]) [0..<h])"
  then have i: "i < h" by simp
  then have "length (p ! i) = w" using r by (rule rect_row [rotated])
  then have "map (\<lambda>j. p ! i ! j) [0..<w] = p ! i"
    by (metis map_nth)
  with i show "map (\<lambda>i. map (\<lambda>j. p ! i ! j) [0..<w]) [0..<h] ! i = p ! i" by simp
qed

lemma max_pool2d_1:
  assumes r: "rect h w p" and h: "0 < h" and w: "0 < w"
  shows "max_pool2d 1 p = p"
proof -
  have hp: "height p = h" using r by (rule rect_height)
  have wp: "width p = w" using r h by (rule rect_width)
  have "max_pool2d 1 p = map (\<lambda>i. map (\<lambda>j. p ! i ! j) [0..<w]) [0..<h]"
    using h w by (simp add: max_pool2d_def hp wp pool_window_def del: upt_Suc)
  also have "\<dots> = p" using r by (rule plane_rows)
  finally show ?thesis .
qed

lemma interpolate_same_size:
  assumes r: "rect S S p" and S: "0 < S" and small: "S \<le> 2 ^ 24"
  shows "interpolate S p = p"
proof -
  have hp: "height p = S" using r by (rule rect_height)
  have wp: "width p = S" using r S by (rule rect_width)
  have "interpolate S p = map (\<lambda>i. map (\<lambda>j. p ! i ! j) [0..<S]) [0..<S]"
    using small by (simp add: interpolate_def hp wp nearest_idx_same cong: map_cong)
  also have "\<dots> = p" using r by (rule plane_rows)
  finally show ?thesis .
qed

lemma valid_plane_idem:
  assumes r: "rect S S b" and S: "0 < S" and small: "S \<le> 2 ^ 24"
  shows "valid_plane S 1 (map (map float_of_bool) b) = b"
proof -
  let ?q = "map (map (\<lambda>v. 1 - v)) (map (map float_of_bool) b)"
  have rq: "rect S S ?q" using r by (intro rect_map)
  have "valid_plane S 1 (map (map float_of_bool) b) = map (map (\<lambda>v. v = 0)) ?q"
    by (simp only: valid_plane_def max_pool2d_1 [OF rq S S]
        interpolate_same_size [OF rq S small])
  also have "\<dots> = map (map (\<lambda>c. c)) b"
    by (simp add: float_of_bool_def o_def)
  finally show ?thesis by simp
qed




lemma float_planes_ok:
  assumes "\<forall>c\<in>set bs. \<forall>b\<in>set c. rect S S b" "0 < S"
  shows "\<not> list_ex (\<lambda>p. height p < 1 \<or> width p < 1)
             (concat (map (map (map (map float_of_bool))) bs))"
proof -
  have "\<not> (height (map (map float_of_bool) b) < 1 \<or> width (map (map float_of_bool) b) < 1)"
    if "rect S S b" for b
  proof -
    have "rect S S (map (map float_of_bool) b)" using that by (rule rect_map)
    then show ?thesis using assms(2) by (simp add: rect_height rect_width)
  qed
  with assms(1) show ?thesis by (auto simp: list_ex_iff)
qed

lemma float_channels_ok:
  assumes "\<forall>c\<in>set bs. c \<noteq> []"
  shows "\<not> list_ex (\<lambda>c. c = []) (map (map (map (map float_of_bool))) bs)"
  using assms by (auto simp: list_ex_iff)

lemma valid_planes_idem:
  assumes "\<forall>c\<in>set bs. \<forall>b\<in>set c. rect S S b" "0 < S" "S \<le> 2 ^ 24"
  shows "map (map (valid_plane S 1)) (map (map (map (map float_of_bool))) bs) = bs"
proof -
  have "map (valid_plane S 1) (map (map (map float_of_bool)) c) = c" if "c \<in> set bs" for c
  proof -
    have "map (\<lambda>b. valid_plane S 1 (map (map float_of_bool) b)) c = map (\<lambda>b. b) c"
      using that assms by (intro map_cong refl valid_plane_idem) auto
    then show ?thesis by (simp add: o_def)
  qed
  then have "map (\<lambda>c. map (valid_plane S 1) (map (map (map float_of_bool)) c)) bs = map (\<lambda>c. c) bs"
    by (intro map_cong refl)
  then show ?thesis by (simp add: o_def)
qed

lemma make_valid_mask_float_M4:
  assumes r: "\<forall>c\<in>set bs. \<forall>b\<in>set c. rect S S b" and S: "0 < S" and small: "S \<le> 2 ^ 24"
      and ch: "\<forall>c\<in>set bs. c \<noteq> []"
  shows "make_valid_mask S (float_mask (M4 bs)) 1 = Inr (M4 bs)"
  using float_planes_ok [OF r S] valid_planes_idem [OF r S small] float_channels_ok [OF ch] S
  by (simp add: float_mask_def make_valid_mask_T4)

lemma make_valid_mask_float_M5:
  assumes r: "\<forall>c\<in>set bs. \<forall>b\<in>set c. rect S S b" and S: "0 < S" and small: "S \<le> 2 ^ 24"
      and ch: "\<forall>c\<in>set bs. c \<noteq> []"
  shows "make_valid_mask S (float_mask (M5 (map (\<lambda>c. [c]) bs))) 1 = Inr (M5 (map (\<lambda>c. [c]) bs))"
proof -
  have c: "concat (map (map (map (map (map float_of_bool)))) (map (\<lambda>c. [c]) bs))
             = map (map (map (map float_of_bool))) bs"
    by (induction bs) auto
  show ?thesis
    using float_planes_ok [OF r S] valid_planes_idem [OF r S small] float_channels_ok [OF ch] S
    by (simp add: float_mask_def make_valid_mask_T5 c del: map_map)
qed

lemma make_valid_mask_idem:
  assumes "make_valid_mask S t 1 = Inr v" and small: "S \<le> 2 ^ 24"
  shows "make_valid_mask S (float_mask v) 1 = Inr v"
proof -
  from make_valid_mask_planes [OF assms(1)] have S: "0 < S"
    and ch: "\<forall>c\<in>set (batch_of t). c \<noteq> []" by simp_all
  show ?thesis
  proof (cases t)
    case (T3 x)
    with assms have v: "v = M4 [map (valid_plane S 1) x]"
      by (simp add: make_valid_mask_T3 split: if_splits)
    show ?thesis unfolding v
      using ch T3
      by (intro make_valid_mask_float_M4 S small) (auto simp: rect_valid_plane batch_of_def)
  next
    case (T4 x)
    with assms have v: "v = M4 (map (map (valid_plane S 1)) x)"
      by (simp add: make_valid_mask_T4 split: if_splits)
    show ?thesis unfolding v
      using ch T4
      by (intro make_valid_mask_float_M4 S small) (auto simp: rect_valid_plane batch_of_def)
  next
    case (T5 x)
    with assms have v: "v = M5 (map (\<lambda>c. [c]) (map (map (valid_plane S 1)) (concat x)))"
      by (simp add: make_valid_mask_T5 split: if_splits)
    show ?thesis unfolding v
      using ch T5
      by (intro make_valid_mask_float_M5 S small) (auto simp: rect_valid_plane batch_of_def)
  qed
qed

lemma make_valid_mask_mono:
  assumes ch: "\<forall>c\<in>set (batch_of t). c \<noteq> []"
      and sq: "\<forall>p\<in>set (planes_of t). rect S S p \<and> (\<forall>r\<in>set p. \<forall>v\<in>set r. v \<le> 1)"
      and S: "0 < S" and small: "S \<le> 2 ^ 24"
      and kp1: "k1 = 2 ^ i" and kp2: "k2 = 2 ^ j" and ij: "i \<le> j" and k2: "k2 dvd S"
  shows "\<exists>v1 v2. make_valid_mask S t k1 = Inr v1 \<and> make_valid_mask S t k2 = Inr v2 \<and>
                 valid_pixels v2 \<subseteq> valid_pixels v1"
proof -
  have k12: "k1 dvd k2" unfolding kp1 kp2 using ij by (rule le_imp_power_dvd)
  have k1: "k1 dvd S" using k12 k2 by (rule dvd_trans)
  from k1 k2 S have pos: "0 < k1" "0 < k2" and le: "k1 \<le> S" "k2 \<le> S"
    by (auto dest: dvd_imp_le)
  have dims: "height p = S \<and> width p = S" if "p \<in> set (planes_of t)" for p
    using sq that S by (auto simp: rect_height rect_width)
  obtain v1 where v1: "make_valid_mask S t k1 = Inr v1"
    using make_valid_mask_succeeds [of k1 S t] pos S le dims ch by auto
  obtain v2 where v2: "make_valid_mask S t k2 = Inr v2"
    using make_valid_mask_succeeds [of k2 S t] pos S le dims ch by auto
  have p1: "planes_of_out v1 = map (valid_plane S k1) (planes_of t)"
    using make_valid_mask_planes [OF v1] by simp
  have p2: "planes_of_out v2 = map (valid_plane S k2) (planes_of t)"
    using make_valid_mask_planes [OF v2] by simp
  have "valid_pixels v2 \<subseteq> valid_pixels v1"
  proof
    fix px assume px: "px \<in> valid_pixels v2"
    obtain n y x where e: "px = (n, y, x)" by (cases px) auto
    from px have n: "n < length (planes_of t)"
      and y: "y < length (valid_plane S k2 (planes_of t ! n))"
      and x: "x < length (valid_plane S k2 (planes_of t ! n) ! y)"
      and v: "valid_plane S k2 (planes_of t ! n) ! y ! x"
      by (auto simp: valid_pixels_def e p2)
    let ?p = "planes_of t ! n"
    have pin: "?p \<in> set (planes_of t)" using n by simp
    have yS: "y < S" using y rect_valid_plane [of S k2 ?p] by (simp add: rect_def)
    have xS: "x < S" using x yS rect_row [OF rect_valid_plane [of S k2 ?p] yS] by simp
    have r: "rect S S ?p" and b: "\<forall>r\<in>set ?p. \<forall>v\<in>set r. v \<le> 1" using sq pin by auto
    have "valid_plane S k1 ?p ! y ! x"
      by (rule valid_plane_mono [OF r b kp1 kp2 ij k2 S small yS xS v])
    moreover have "y < length (valid_plane S k1 ?p)"
      using yS rect_valid_plane [of S k1 ?p] by (simp add: rect_def)
    moreover have "x < length (valid_plane S k1 ?p ! y)"
      using xS rect_row [OF rect_valid_plane [of S k1 ?p] yS] by simp
    ultimately show "px \<in> valid_pixels v1"
      using n by (simp add: valid_pixels_def e p1)
  qed
  with v1 v2 show ?thesis by blast
qed

text \<open>The source rows that a mask of 4 rows, pooled or not, is read at.\<close>

lemma nearest_idx_4:
  "nearest_idx 0 4 4 = 0" "nearest_idx (Suc 0) 4 4 = 1" "nearest_idx (Suc (Suc 0)) 4 4 = 2"
  "nearest_idx (Suc (Suc (Suc 0))) 4 4 = 3"
  "nearest_idx 0 2 4 = 0" "nearest_idx (Suc 0) 2 4 = 0" "nearest_idx (Suc (Suc 0)) 2 4 = 1"
  "nearest_idx (Suc (Suc (Suc 0))) 2 4 = 1"
  "nearest_idx y (Suc 0) 4 = 0"
  using nearest_idx_same [of 0 4] nearest_idx_same [of 1 4] nearest_idx_same [of 2 4]
    nearest_idx_same [of 3 4] nearest_idx_exact [of 2 0 1] nearest_idx_exact [of 2 1 1]
    nearest_idx_exact [of 2 2 1] nearest_idx_exact [of 2 3 1]
  by (simp_all add: nearest_idx_def numeral_2_eq_2 [symmetric] numeral_3_eq_3 [symmetric])

lemma interpolate_4:
  "interpolate 4 [[a, b, c, d], [e, f, g, h], [i, j, k, l], [m, n, q, r]] =
     [[a, b, c, d], [e, f, g, h], [i, j, k, l], [m, n, q, r]]"
  "interpolate 4 [[a, b], [c, d]] = [[a, a, b, b], [a, a, b, b], [c, c, d, d], [c, c, d, d]]"
  "interpolate 4 [[a]] = [[a, a, a, a], [a, a, a, a], [a, a, a, a], [a, a, a, a]]"
proof -
  have s: "height [[a, b, c, d], [e, f, g, h], [i, j, k, l], [m, n, q, r]] = 4"
    "width [[a, b, c, d], [e, f, g, h], [i, j, k, l], [m, n, q, r]] = 4"
    "height [[a, b], [c, d]] = 2" "width [[a, b], [c, d]] = 2"
    "height [[a]] = 1" "width [[a]] = 1"
    by (simp_all add: height_def width_def)
  show "interpolate 4 [[a, b, c, d], [e, f, g, h], [i, j, k, l], [m, n, q, r]] =
     [[a, b, c, d], [e, f, g, h], [i, j, k, l], [m, n, q, r]]"
    unfolding interpolate_def s by (simp add: upt_rec nearest_idx_4)
  show "interpolate 4 [[a, b], [c, d]] =
     [[a, a, b, b], [a, a, b, b], [c, c, d, d], [c, c, d, d]]"
    unfolding interpolate_def s by (simp add: upt_rec nearest_idx_4)
  show "interpolate 4 [[a]] = [[a, a, a, a], [a, a, a, a], [a, a, a, a], [a, a, a, a]]"
    unfolding interpolate_def s by (simp add: upt_rec nearest_idx_4)
qed

text \<open>
  C7, as stated, fails: on the mask of 4 by 4 pixels whose only invalid pixel is the last
  one, with image size 4, pool size 2 marks the last block of 2 by 2 pixels invalid, and
  pool size 3 marks every pixel valid: the one window of 3 by 3 pixels leaves out the
  last row and the last column.
\<close>

theorem larger_pool_more_valid:
  "make_valid_mask 4 (T4 [[[[1, 1, 1, 1], [1, 1, 1, 1], [1, 1, 1, 1], [1, 1, 1, 0]]]]) 2 =
     Inr (M4 [[[[True, True, True, True], [True, True, True, True],
                [True, True, False, False], [True, True, False, False]]]]) \<and>
   make_valid_mask 4 (T4 [[[[1, 1, 1, 1], [1, 1, 1, 1], [1, 1, 1, 1], [1, 1, 1, 0]]]]) 3 =
     Inr (M4 [[[[True, True, True, True], [True, True, True, True],
                [True, True, True, True], [True, True, True, True]]]])"
proof -
  have two: "make_valid_mask 4 (T4 [[[[1, 1, 1, 1], [1, 1, 1, 1], [1, 1, 1, 1], [1, 1, 1, 0]]]]) 2 =
     Inr (M4 [[[[True, True, True, True], [True, True, True, True],
                [True, True, False, False], [True, True, False, False]]]])"
    apply (simp add: make_valid_mask_T4 valid_plane_def max_pool2d_def height_def width_def)
    apply (simp add: pool_window_def upt_rec)
    apply (simp add: interpolate_4)
    done
  have three: "make_valid_mask 4 (T4 [[[[1, 1, 1, 1], [1, 1, 1, 1], [1, 1, 1, 1], [1, 1, 1, 0]]]]) 3 =
     Inr (M4 [[[[True, True, True, True], [True, True, True, True],
                [True, True, True, True], [True, True, True, True]]]])"
    apply (simp add: make_valid_mask_T4 valid_plane_def max_pool2d_def height_def width_def)
    apply (simp add: pool_window_def upt_rec)
    apply (simp add: interpolate_4)
    done
  from two three show ?thesis by (rule conjI)
qed

text \<open>
  C7, amended. With pool size 1 the max pooling returns its input, and for an image size
  of at most \<open>2 ^ 24\<close> the construction is idempotent: the valid mask of a valid mask is
  that mask. On masks with at least one channel and entries at most 1 whose planes are
  squares of the image size \<open>S \<le> 2 ^ 24\<close>, for pool sizes \<open>k1 = 2 ^ i\<close> and \<open>k2 = 2 ^ j\<close>
  with \<open>i \<le> j\<close> and \<open>k2\<close> a divisor of \<open>S\<close>, both calls return and every pixel valid with
  \<open>k2\<close> is valid with \<open>k1\<close>. The pool sizes are powers of two because the resizing
  computes its source index in float32: then the quotient of the sizes is exact.
\<close>

theorem make_valid_mask_pool_sizes:
  "(S \<le> 2 ^ 24 \<and> make_valid_mask S t 1 = Inr v \<longrightarrow>
      make_valid_mask S (float_mask v) 1 = Inr v) \<and>
   (rect h w p \<and> 0 < h \<and> 0 < w \<longrightarrow> max_pool2d 1 p = p) \<and>
   ((\<forall>c\<in>set (batch_of t). c \<noteq> []) \<and>
    (\<forall>p\<in>set (planes_of t). rect S S p \<and> (\<forall>r\<in>set p. \<forall>v\<in>set r. v \<le> 1)) \<and>
      0 < S \<and> S \<le> 2 ^ 24 \<and> k1 = 2 ^ i \<and> k2 = 2 ^ j \<and> i \<le> j \<and> k2 dvd S \<longrightarrow>
    (\<exists>v1 v2. make_valid_mask S t k1 = Inr v1 \<and> make_valid_mask S t k2 = Inr v2 \<and>
              valid_pixels v2 \<subseteq> valid_pixels v1))"
  using make_valid_mask_idem [of S t v] max_pool2d_1 [of h w p]
    make_valid_mask_mono [of t S k1 i k2 j]
  by blast

theorem make_valid_mask_pool_sizes_witness:
  "make_valid_mask 4
     (float_mask (M4 [[[[True, True, True, True], [True, True, True, True],
                        [True, True, True, True], [True, True, True, False]]]])) 1 =
     Inr (M4 [[[[True, True, True, True], [True, True, True, True],
                [True, True, True, True], [True, True, True, False]]]]) \<and>
   max_pool2d 1 [[0, 1], [1, 0]] = [[0, 1], [1, 0]] \<and>
   make_valid_mask 4 (T4 [[[[1, 1, 1, 1], [1, 1, 1, 1], [1, 1, 1, 1], [1, 1, 1, 0]]]]) 1 =
     Inr (M4 [[[[True, True, True, True], [True, True, True, True],
                [True, True, True, True], [True, True, True, False]]]]) \<and>
   make_valid_mask 4 (T4 [[[[1, 1, 1, 1], [1, 1, 1, 1], [1, 1, 1, 1], [1, 1, 1, 0]]]]) 2 =
     Inr (M4 [[[[True, True, True, True], [True, True, True, True],
                [True, True, False, False], [True, True, False, False]]]]) \<and>
   valid_pixels (M4 [[[[True, True, True, True], [True, True, True, True],
                       [True, True, False, False], [True, True, False, False]]]])
     \<subseteq> valid_pixels (M4 [[[[True, True, True, True], [True, True, True, True],
                            [True, True, True, True], [True, True, True, False]]]]) \<and>
   (0, 0, 0) \<in> valid_pixels (M4 [[[[True, True, True, True], [True, True, True, True],
                                   [True, True, False, False], [True, True, False, False]]]]) \<and>
   (0, 3, 2) \<in> valid_pixels (M4 [[[[True, True, True, True], [True, True, True, True],
                                   [True, True, True, True], [True, True, True, False]]]]) \<and>
   (0, 3, 2) \<notin> valid_pixels (M4 [[[[True, True, True, True], [True, True, True, True],
                                   [True, True, False, False], [True, True, False, False]]]])"
proof -
  let ?t = "T4 [[[[1, 1, 1, 1], [1, 1, 1, 1], [1, 1, 1, 1], [1, 1, 1, 0 :: real]]]]"
  let ?v1 = "M4 [[[[True, True, True, True], [True, True, True, True],
                   [True, True, True, True], [True, True, True, False]]]]"
  let ?v2 = "M4 [[[[True, True, True, True], [True, True, True, True],
                   [True, True, False, False], [True, True, False, False]]]]"
  have a: "make_valid_mask 4 ?t 1 = Inr ?v1"
    apply (simp add: make_valid_mask_T4 valid_plane_def max_pool2d_def height_def width_def)
    apply (simp add: pool_window_def upt_rec)
    apply (simp add: interpolate_4)
    done
  have a2: "make_valid_mask 4 ?t 2 = Inr ?v2"
    apply (simp add: make_valid_mask_T4 valid_plane_def max_pool2d_def height_def width_def)
    apply (simp add: pool_window_def upt_rec)
    apply (simp add: interpolate_4)
    done
  have a': "(4::nat) \<le> 2 ^ 24 \<and> make_valid_mask 4 ?t 1 = Inr ?v1"
    using a by simp
  have b: "rect 2 2 [[0, 1], [1, 0 :: real]] \<and> 0 < (2::nat) \<and> 0 < (2::nat)"
    by (simp add: rect_def)
  have c: "(\<forall>c\<in>set (batch_of ?t). c \<noteq> []) \<and>
           (\<forall>p\<in>set (planes_of ?t). rect 4 4 p \<and> (\<forall>r\<in>set p. \<forall>v\<in>set r. v \<le> (1::real))) \<and>
           0 < (4::nat) \<and> (4::nat) \<le> 2 ^ 24 \<and> (1::nat) = 2 ^ 0 \<and> (2::nat) = 2 ^ 1 \<and>
           (0::nat) \<le> 1 \<and> (2::nat) dvd 4"
    by (simp add: planes_of_def batch_of_def rect_def)
  note T = make_valid_mask_pool_sizes [of 4 ?t ?v1 2 2 "[[0, 1], [1, 0]]" 1 0 2 1]
  from T [THEN conjunct2, THEN conjunct2, THEN mp, OF c] a a2
  have incl: "valid_pixels ?v2 \<subseteq> valid_pixels ?v1" by simp
  have mem: "(0, 0, 0) \<in> valid_pixels ?v2" "(0, 3, 2) \<in> valid_pixels ?v1"
    "(0, 3, 2) \<notin> valid_pixels ?v2"
    by (simp_all add: valid_pixels_def planes_of_out_def)
  from T [THEN conjunct1, THEN mp, OF a']
       T [THEN conjunct2, THEN conjunct1, THEN mp, OF b]
       a a2 incl mem
  show ?thesis by (intro conjI)
qed

section \<open>Properties of the shared step\<close>

subsection \<open>Shapes\<close>

lemma height3_rect: "list_all (rect h w) t \<Longrightarrow> t \<noteq> [] \<Longrightarrow> height3 t = h"
  by (cases t) (auto simp: height3_def rect_height)

lemma width3_rect: "list_all (rect h w) t \<Longrightarrow> t \<noteq> [] \<Longrightarrow> 0 < h \<Longrightarrow> width3 t = w"
  by (cases t) (auto simp: width3_def rect_width)

lemma list_all_rect_map:
  "list_all (rect h w) t \<Longrightarrow> list_all (rect h w) (map (map (map f)) t)"
  by (simp add: list_all_length rect_map)

lemma nth3_map:
  assumes "list_all (rect h w) t" "b < length t" "y < h" "x < w"
  shows "map (map (map f)) t ! b ! y ! x = f (t ! b ! y ! x)"
proof -
  have r: "rect h w (t ! b)" using assms(1,2) by (simp add: list_all_length)
  then have "length (t ! b) = h" "length (t ! b ! y) = w"
    using assms(3) by (auto simp: rect_def list_all_length)
  with assms show ?thesis by simp
qed

subsection \<open>The product with the mask\<close>

lemma imul_mask3_nth:
  assumes "imul_mask3 g m = Inr r" "b < length g" "y < height3 g" "x < width3 g"
  shows "r ! b ! y ! x =
           g ! b ! y ! x *
           (if m ! bidx (length m) b ! bidx (height3 m) y ! bidx (width3 m) x then 1 else 0)"
  using assms by (auto simp: imul_mask3_def split: if_splits)

lemma imul_mask3_rect:
  assumes "imul_mask3 g m = Inr r"
  shows "length r = length g \<and> list_all (rect (height3 g) (width3 g)) r"
  using assms by (auto simp: imul_mask3_def rect_def list_all_length split: if_splits)

lemma imul_mask2_nth:
  assumes "imul_mask2 g m = Inr r" "y < height g" "x < width g"
  shows "r ! y ! x = g ! y ! x * (if m ! bidx (height m) y ! bidx (width m) x then 1 else 0)"
  using assms by (auto simp: imul_mask2_def split: if_splits)

lemma imul_mask2_rect:
  assumes "imul_mask2 g m = Inr r"
  shows "rect (height g) (width g) r"
  using assms by (auto simp: imul_mask2_def rect_def list_all_length split: if_splits)

lemma masked_labels_cases:
  assumes "masked_labels vmask semantic = Inr g0"
  obtains m where "squeeze1 vmask = T3 m"
    and "imul_mask3 (map (map (map (\<lambda>px. undefined_to_zero (background_to_zero px)))) semantic) m
           = Inr g0"
  using assms by (auto simp: masked_labels_def split: tensor.splits)

text \<open>The entry of the labels at a pixel, before and after the subtraction of one.\<close>

lemma masked_labels_nth:
  assumes g0: "masked_labels vmask semantic = Inr g0"
      and sq: "squeeze1 vmask = T3 m"
      and r: "list_all (rect h w) semantic" and b: "b < length semantic"
      and y: "y < h" and x: "x < w"
  shows "g0 ! b ! y ! x =
           undefined_to_zero (background_to_zero (semantic ! b ! y ! x)) *
           (if m ! bidx (length m) b ! bidx (height3 m) y ! bidx (width3 m) x then 1 else 0)"
proof -
  let ?g = "map (map (map (\<lambda>px. undefined_to_zero (background_to_zero px)))) semantic"
  from g0 sq have im: "imul_mask3 ?g m = Inr g0"
    by (simp add: masked_labels_def)
  have ne: "?g \<noteq> []" using b by auto
  have rg: "list_all (rect h w) ?g" using r by (rule list_all_rect_map)
  have hg: "height3 ?g = h" using rg ne by (rule height3_rect)
  have wg: "width3 ?g = w" using rg ne y by (intro width3_rect) auto
  have "g0 ! b ! y ! x = ?g ! b ! y ! x *
          (if m ! bidx (length m) b ! bidx (height3 m) y ! bidx (width3 m) x then 1 else 0)"
    using imul_mask3_nth [OF im, of b y x] b y x hg wg by simp
  then show ?thesis by (simp only: nth3_map [OF r b y x])
qed

lemma masked_labels_rect:
  assumes g0: "masked_labels vmask semantic = Inr g0"
      and r: "list_all (rect h w) semantic" and b: "b < length semantic" and y: "y < h"
  shows "length g0 = length semantic \<and> list_all (rect h w) g0"
proof -
  let ?g = "map (map (map (\<lambda>px. undefined_to_zero (background_to_zero px)))) semantic"
  from g0 obtain m where im: "imul_mask3 ?g m = Inr g0" by (rule masked_labels_cases)
  have ne: "?g \<noteq> []" using b by auto
  have rg: "list_all (rect h w) ?g" using r by (rule list_all_rect_map)
  have hg: "height3 ?g = h" using rg ne by (rule height3_rect)
  have wg: "width3 ?g = w" using rg ne y by (intro width3_rect) auto
  from imul_mask3_rect [OF im] show ?thesis by (simp add: hg wg)
qed

lemma shifted_labels_nth:
  assumes g0: "masked_labels vmask semantic = Inr g0"
      and r: "list_all (rect h w) semantic" and b: "b < length semantic"
      and y: "y < h" and x: "x < w"
  shows "\<exists>g. shifted_labels vmask semantic = Inr g \<and> g ! b ! y ! x = g0 ! b ! y ! x - 1 \<and>
             b < length g \<and> y < length (g ! b) \<and> x < length (g ! b ! y)"
proof -
  let ?g = "map (map (map (\<lambda>l. l - 1))) g0"
  from masked_labels_rect [OF g0 r b y] have l: "length g0 = length semantic"
    and rg: "list_all (rect h w) g0" by auto
  have b': "b < length g0" using b l by simp
  have "?g ! b ! y ! x = g0 ! b ! y ! x - 1"
    using nth3_map [OF rg b' y x] .
  moreover have "shifted_labels vmask semantic = Inr ?g"
    using g0 by (simp add: shifted_labels_def)
  moreover have "y < length (?g ! b) \<and> x < length (?g ! b ! y)"
    using rg b' y x by (simp add: list_all_length rect_def)
  ultimately show ?thesis using b' by auto
qed


subsection \<open>The cross entropy and the ignored index\<close>

lemma counted_not_ignored:
  "(b, y, x) \<in> set (counted ignore_index target) \<Longrightarrow> target ! b ! y ! x \<noteq> ignore_index"
  by (simp add: counted_def)

lemma nth_list_update_any: "xs[i := v] ! j = (if i = j \<and> i < length xs then v else xs ! j)"
  by (cases "i < length xs") (auto simp: nth_list_update list_update_beyond)

lemma update4_nth:
  assumes "(b', y', x') \<noteq> (b, y, x)"
  shows "update4 t b c y x v ! b' ! c' ! y' ! x' = t ! b' ! c' ! y' ! x'"
  using assms by (auto simp: update4_def nth_list_update_any)

lemma length_update4 [simp]: "length (update4 t b c y x v) = length t"
  by (simp add: update4_def)

lemma n_classes_update4 [simp]: "n_classes (update4 t b c y x v) = n_classes t"
proof (cases t)
  case Nil
  then show ?thesis by (simp add: update4_def)
next
  case (Cons e es)
  then show ?thesis by (cases b) (simp_all add: update4_def n_classes_def)
qed

lemma height_update [simp]: "height (p[y := r]) = height p"
  by (simp add: height_def)

lemma width_update [simp]: "width (p[y := (p ! y)[x := v]]) = width p"
proof (cases p)
  case Nil
  then show ?thesis by simp
next
  case (Cons r rs)
  then show ?thesis by (cases y) (simp_all add: width_def)
qed

lemma map_update_same: "f q = f (xs ! c) \<Longrightarrow> map f (xs[c := q]) = map f xs"
  by (auto simp: list_eq_iff_nth_eq nth_list_update_any)

lemma case_map: "(case map f xs of [] \<Rightarrow> a | s # _ \<Rightarrow> g s) = (case xs of [] \<Rightarrow> a | p # _ \<Rightarrow> g (f p))"
  by (cases xs) simp_all

lemma spatial_map:
  "spatial t = (case map (\<lambda>p. (height p, width p)) (concat t) of [] \<Rightarrow> None | s # _ \<Rightarrow> Some s)"
  unfolding spatial_def case_map by (rule refl)

lemma is_class_unat:
  assumes "is_class n l"
  shows "unat l < n"
proof -
  from assms have pos: "0 \<le> sint l" and lt: "sint l < int n" by (simp_all add: is_class_def)
  have "sint l < 2 ^ 64" using sint_lt [of l] by simp
  with pos have "take_bit 64 (sint l) = sint l" by (simp add: take_bit_int_eq_self)
  then have "uint l = sint l" using uint_sint [of l] by simp
  then have "int (unat l) = sint l" by simp
  with lt show ?thesis by linarith
qed

lemma spatial_update4 [simp]: "spatial (update4 t b c y x v) = spatial t"
proof -
  let ?f = "\<lambda>p. (height p, width p)"
  let ?q = "(t ! b ! c)[y := (t ! b ! c ! y)[x := v]]"
  have "map ?f ((t ! b)[c := ?q]) = map ?f (t ! b)"
    by (rule map_update_same) simp
  then have "map (map ?f) (update4 t b c y x v) = map (map ?f) t"
    unfolding update4_def by (rule map_update_same)
  then have "map ?f (concat (update4 t b c y x v)) = map ?f (concat t)"
    by (simp only: map_concat)
  then show ?thesis by (simp only: spatial_map)
qed

lemma logits_update4:
  assumes "(b', y', x') \<noteq> (b, y, x)"
  shows "logits (update4 t b c y x v) b' y' x' = logits t b' y' x'"
  using assms by (simp add: logits_def update4_nth)

text \<open>The predictions at a pixel that is not counted do not change the loss.\<close>

lemma cross_entropy_update4:
  assumes "(b, y, x) \<notin> set (counted ignore_index target)"
  shows "cross_entropy ignore_index (update4 input b c y x v) target
           = cross_entropy ignore_index input target"
proof -
  have "map (\<lambda>(b', y', x'). - log_softmax (logits (update4 input b c y x v) b' y' x')
                 (unat (target ! b' ! y' ! x'))) (counted ignore_index target)
      = map (\<lambda>(b', y', x'). - log_softmax (logits input b' y' x')
                 (unat (target ! b' ! y' ! x'))) (counted ignore_index target)"
  proof (intro map_cong refl)
    fix p assume p: "p \<in> set (counted ignore_index target)"
    obtain b' y' x' where e: "p = (b', y', x')" by (cases p) auto
    from p e assms have "(b', y', x') \<noteq> (b, y, x)" by auto
    then show "(case p of (b', y', x') \<Rightarrow>
                  - log_softmax (logits (update4 input b c y x v) b' y' x')
                      (unat (target ! b' ! y' ! x')))
             = (case p of (b', y', x') \<Rightarrow>
                  - log_softmax (logits input b' y' x') (unat (target ! b' ! y' ! x')))"
      by (simp add: e logits_update4)
  qed
  then show ?thesis
    unfolding cross_entropy_def Let_def
    by (simp only: length_update4 n_classes_update4 spatial_update4)
qed

text \<open>The loss when the criterion returns.\<close>

lemma cross_entropy_returns:
  assumes "length input = length target"
      and "spatial input = Some (height3 target, width3 target)"
      and "\<forall>(b, y, x)\<in>set (counted ignore_index target).
             is_class (n_classes input) (target ! b ! y ! x)"
  shows "cross_entropy ignore_index input target =
           Inr (if counted ignore_index target = [] then NaN
                else Fin (sum_list (map (\<lambda>(b, y, x).
                        ln (sum_list (map (\<lambda>c. exp (input ! b ! c ! y ! x))
                                       [0..<n_classes input]))
                        - input ! b ! unat (target ! b ! y ! x) ! y ! x)
                      (counted ignore_index target))
                    / real (length (counted ignore_index target))))"
proof -
  have "map (\<lambda>(b, y, x). - log_softmax (logits input b y x) (unat (target ! b ! y ! x)))
          (counted ignore_index target)
      = map (\<lambda>(b, y, x). ln (sum_list (map (\<lambda>c. exp (input ! b ! c ! y ! x))
                                       [0..<n_classes input]))
                        - input ! b ! unat (target ! b ! y ! x) ! y ! x)
          (counted ignore_index target)"
  proof (intro map_cong refl)
    fix p assume p: "p \<in> set (counted ignore_index target)"
    obtain b y x where e: "p = (b, y, x)" by (cases p) auto
    from assms(3) p e have "is_class (n_classes input) (target ! b ! y ! x)" by auto
    then have "unat (target ! b ! y ! x) < n_classes input"
      by (rule is_class_unat)
    then show "(case p of (b, y, x) \<Rightarrow>
                  - log_softmax (logits input b y x) (unat (target ! b ! y ! x)))
             = (case p of (b, y, x) \<Rightarrow>
                  ln (sum_list (map (\<lambda>c. exp (input ! b ! c ! y ! x)) [0..<n_classes input]))
                  - input ! b ! unat (target ! b ! y ! x) ! y ! x)"
      by (simp add: e log_softmax_def logits_def o_def)
  qed
  then have s: "sum_list (map (\<lambda>(b, y, x). - log_softmax (logits input b y x)
                                 (unat (target ! b ! y ! x))) (counted ignore_index target))
      = sum_list (map (\<lambda>(b, y, x). ln (sum_list (map (\<lambda>c. exp (input ! b ! c ! y ! x))
                                       [0..<n_classes input]))
                        - input ! b ! unat (target ! b ! y ! x) ! y ! x)
          (counted ignore_index target))"
    by (rule arg_cong)
  have n: "\<not> list_ex (\<lambda>(b, y, x). \<not> is_class (n_classes input) (target ! b ! y ! x))
                   (counted ignore_index target)"
    using assms(3) by (auto simp: list_ex_iff)
  show ?thesis
    unfolding cross_entropy_def Let_def s using assms(1,2) n by simp
qed

lemma cross_entropy_raises:
  assumes "length input = length target"
      and "spatial input = Some (height3 target, width3 target)"
      and "(b, y, x) \<in> set (counted ignore_index target)"
      and "\<not> is_class (n_classes input) (target ! b ! y ! x)"
  shows "cross_entropy ignore_index input target = Inl IndexError"
  using assms by (auto simp: cross_entropy_def Let_def list_ex_iff)

subsection \<open>The step as a whole\<close>

lemma shared_step_returns:
  assumes "make_valid_mask image_size (batch_mask_valid batch) 4 = Inr vmask"
      and "shifted_labels vmask (batch_segment_semantic batch) = Inr semantic_gt"
      and "model (batch_rgb batch) = Inr (normal_preds, semantic_preds)"
      and "masked_l1_loss (map (map (map (map (\<lambda>v. clamp v 0 1)))) normal_preds)
             (batch_normal batch) (mask_valid_normal vmask) = Inr loss_normal"
      and "cross_entropy (- 1) semantic_preds semantic_gt = Inr loss_semantic"
  shows "shared_step image_size model masked_l1_loss batch =
           Inr \<lparr>normal_loss = loss_normal, semantic_loss = loss_semantic,
                loss = fadd (fmul (Fin 10) loss_normal) loss_semantic\<rparr>"
  using assms by (simp add: shared_step_def Let_def)

lemma shared_step_raises:
  assumes "make_valid_mask image_size (batch_mask_valid batch) 4 = Inr vmask"
      and "shifted_labels vmask (batch_segment_semantic batch) = Inr semantic_gt"
      and "model (batch_rgb batch) = Inr (normal_preds, semantic_preds)"
      and "masked_l1_loss (map (map (map (map (\<lambda>v. clamp v 0 1)))) normal_preds)
             (batch_normal batch) (mask_valid_normal vmask) = Inr loss_normal"
      and "cross_entropy (- 1) semantic_preds semantic_gt = Inl e"
  shows "shared_step image_size model masked_l1_loss batch = Inl e"
  using assms by (simp add: shared_step_def Let_def)

lemma shared_step_cases:
  assumes "shared_step image_size model masked_l1_loss batch = Inr res"
  obtains vmask semantic_gt normal_preds semantic_preds loss_normal
  where "make_valid_mask image_size (batch_mask_valid batch) 4 = Inr vmask"
    and "shifted_labels vmask (batch_segment_semantic batch) = Inr semantic_gt"
    and "model (batch_rgb batch) = Inr (normal_preds, semantic_preds)"
    and "masked_l1_loss (map (map (map (map (\<lambda>v. clamp v 0 1)))) normal_preds)
           (batch_normal batch) (mask_valid_normal vmask) = Inr loss_normal"
    and "cross_entropy (- 1) semantic_preds semantic_gt = Inr (semantic_loss res)"
  using assms
  by (auto simp: shared_step_def Let_def split: sum.splits prod.splits)

text \<open>The network enters the step only through what it returns on the images of the batch.\<close>

lemma shared_step_cong:
  assumes "model' (batch_rgb batch) = Inr (normal_preds, semantic_preds')"
      and "model (batch_rgb batch) = Inr (normal_preds, semantic_preds)"
      and "\<And>g. cross_entropy (- 1) semantic_preds' g = cross_entropy (- 1) semantic_preds g"
  shows "shared_step image_size model' masked_l1_loss batch
           = shared_step image_size model masked_l1_loss batch"
  using assms by (auto simp: shared_step_def Let_def split: sum.splits)

lemma clamp_unit: "clamp v 0 1 = (if v < 0 then 0 else if 1 < v then 1 else v)"
  by (simp add: clamp_def)

lemma fadd_fmul_10:
  "fadd (fmul (Fin 10) a) c =
     (case a of NaN \<Rightarrow> NaN | Fin x \<Rightarrow> (case c of NaN \<Rightarrow> NaN | Fin y \<Rightarrow> Fin (10 * x + y)))"
  by (cases a; cases c) simp_all

text \<open>On a well-shaped batch the mask is built and the labels are derived.\<close>

lemma well_shaped_labels:
  assumes ws: "well_shaped image_size batch" and m: "batch_mask_valid batch = T4 m"
  shows "make_valid_mask image_size (batch_mask_valid batch) 4
           = Inr (M4 (map (map (valid_plane image_size 4)) m)) \<and>
         (\<exists>semantic_gt.
            shifted_labels (M4 (map (map (valid_plane image_size 4)) m))
              (batch_segment_semantic batch) = Inr semantic_gt \<and>
            length semantic_gt = length (batch_segment_semantic batch) \<and>
            height3 semantic_gt = image_size \<and> width3 semantic_gt = image_size)"
proof -
  let ?sem = "batch_segment_semantic batch"
  let ?S = image_size
  from ws m have S: "0 < ?S" and ne: "m \<noteq> []" and len: "length m = length ?sem"
    and one: "\<forall>c\<in>set m. length c = 1" and big: "\<forall>c\<in>set m. \<forall>p\<in>set c. 4 \<le> height p \<and> 4 \<le> width p"
    and r: "list_all (rect ?S ?S) ?sem"
    by (auto simp: well_shaped_def list_all_iff)
  let ?mv = "M4 (map (map (valid_plane ?S 4)) m) :: bool mask_out"
  have ch: "\<forall>c\<in>set m. c \<noteq> []" using one by auto
  have mv: "make_valid_mask ?S (batch_mask_valid batch) 4 = Inr ?mv"
    using S big ch by (auto simp: m make_valid_mask_T4 list_ex_iff not_less)
  let ?msk = "map hd (map (map (valid_plane ?S 4)) m)"
  have sq: "squeeze1 ?mv = T3 ?msk"
    using one by (simp add: squeeze1_def list_all_iff)
  let ?g = "map (map (map (\<lambda>px. undefined_to_zero (background_to_zero px)))) ?sem"
  have gne: "?g \<noteq> []" using ne len by auto
  have rg: "list_all (rect ?S ?S) ?g" using r by (rule list_all_rect_map)
  have rm: "list_all (rect ?S ?S) ?msk"
  proof -
    have "rect ?S ?S (hd (map (valid_plane ?S 4) c))" if "c \<in> set m" for c
    proof -
      from one that obtain p where "c = [p]" by (cases c) auto
      then show ?thesis by (simp add: rect_valid_plane)
    qed
    then show ?thesis by (simp add: list_all_iff)
  qed
  have mne: "?msk \<noteq> []" using ne by simp
  have "broadcasts (length ?msk) (length ?g) \<and> broadcasts (height3 ?msk) (height3 ?g) \<and>
        broadcasts (width3 ?msk) (width3 ?g)"
    using len height3_rect [OF rg gne] height3_rect [OF rm mne]
      width3_rect [OF rg gne S] width3_rect [OF rm mne S]
    by (simp add: broadcasts_def)
  then obtain g0 where im: "imul_mask3 ?g ?msk = Inr g0"
    by (simp add: imul_mask3_def)
  then have ml: "masked_labels ?mv ?sem = Inr g0"
    by (simp add: masked_labels_def sq)
  let ?gt = "map (map (map (\<lambda>l. l - 1))) g0"
  have sh: "shifted_labels ?mv ?sem = Inr ?gt"
    using ml by (simp add: shifted_labels_def)
  from imul_mask3_rect [OF im] have l0: "length g0 = length ?sem"
    and r0: "list_all (rect ?S ?S) g0"
    using height3_rect [OF rg gne] width3_rect [OF rg gne S] by simp_all
  have rgt: "list_all (rect ?S ?S) ?gt" using r0 by (rule list_all_rect_map)
  have gtne: "?gt \<noteq> []" using l0 len ne by auto
  have "length ?gt = length ?sem" using l0 by simp
  moreover have "height3 ?gt = ?S" using rgt gtne by (rule height3_rect)
  moreover have "width3 ?gt = ?S" using rgt gtne S by (rule width3_rect)
  ultimately show ?thesis using mv sh by blast
qed

lemma mask_valid_normal_M4:
  "mask_valid_normal (M4 x) = M4 (map (\<lambda>c. concat (map (\<lambda>p. [p, p, p]) c)) x)"
proof -
  have "replicate 3 = (\<lambda>p :: 'a plane. [p, p, p])"
    by (rule ext) (simp add: numeral_3_eq_3)
  then show ?thesis
    by (simp add: mask_valid_normal_def repeat_interleave3_def)
qed

subsection \<open>A batch of one image of 2 by 2 pixels\<close>

lemma nearest_idx_one: "nearest_idx y (Suc 0) S = 0"
  by (simp add: nearest_idx_def)

lemma valid_plane_ones:
  "valid_plane 2 4 [[1, 1, 1, 1], [1, 1, 1, 1], [1, 1, 1, 1], [1, 1, 1, 1]]
     = [[True, True], [True, True]]"
  apply (simp add: valid_plane_def max_pool2d_def height_def width_def)
  apply (simp add: pool_window_def upt_rec)
  apply (simp add: interpolate_def height_def width_def)
  apply (simp add: upt_rec nearest_idx_one)
  done

lemma shifted_labels_example:
  "shifted_labels (M4 [[[[True, True], [True, True]]]])
     [[[(255, 255, 255), (2, 0, 0)], [(- 1, 0, 0), (1, 1, 1)]]] = Inr [[[- 1, 1], [- 1, 0]]]"
  "shifted_labels (M4 [[[[True, True], [True, True]]]])
     [[[(255, 255, 255), (3, 0, 0)], [(- 1, 0, 0), (7, 1, 1)]]] = Inr [[[- 1, 2], [- 1, 6]]]"
  "shifted_labels (M4 [[[[False, True], [True, True]]]])
     [[[(2, 0, 0), (2, 0, 0)], [(- 1, 0, 0), (1, 1, 1)]]] = Inr [[[- 1, 1], [- 1, 0]]]"
  by (simp_all add: shifted_labels_def masked_labels_def squeeze1_def imul_mask3_def
      broadcasts_def bidx_def height3_def width3_def height_def width_def
      background_to_zero_def undefined_to_zero_def upt_rec)

lemma counted_example:
  "counted (- 1) [[[- 1, 1], [- 1, 0 :: label]]] = [(0, 0, 1), (0, 1, 1)]"
  "counted (- 1) [[[- 1, 2], [- 1, 6 :: label]]] = [(0, 0, 1), (0, 1, 1)]"
  by (simp_all add: counted_def positions_def upt_rec)

lemma nearest_idx_2:
  "nearest_idx 0 2 2 = 0" "nearest_idx (Suc 0) 2 2 = 1"
  using nearest_idx_same [of 0 2] nearest_idx_same [of 1 2] by simp_all

lemma interpolate_2:
  "interpolate 2 [[a, b], [c, d]] = [[a, b], [c, d]]"
  "interpolate 2 [[a]] = [[a, a], [a, a]]"
proof -
  have s: "height [[a, b], [c, d]] = 2" "width [[a, b], [c, d]] = 2"
    "height [[a]] = Suc 0" "width [[a]] = Suc 0"
    by (simp_all add: height_def width_def)
  show "interpolate 2 [[a, b], [c, d]] = [[a, b], [c, d]]"
    unfolding interpolate_def s by (simp add: upt_rec nearest_idx_2)
  show "interpolate 2 [[a]] = [[a, a], [a, a]]"
    unfolding interpolate_def s by (simp add: upt_rec nearest_idx_one)
qed

lemma valid_plane_corner:
  "valid_plane 2 4
     [[0, 1, 1, 1, 1, 1, 1, 1], [1, 1, 1, 1, 1, 1, 1, 1], [1, 1, 1, 1, 1, 1, 1, 1],
      [1, 1, 1, 1, 1, 1, 1, 1], [1, 1, 1, 1, 1, 1, 1, 1], [1, 1, 1, 1, 1, 1, 1, 1],
      [1, 1, 1, 1, 1, 1, 1, 1], [1, 1, 1, 1, 1, 1, 1, 1]]
     = [[False, True], [True, True]]"
  apply (simp add: valid_plane_def max_pool2d_def height_def width_def)
  apply (simp add: pool_window_def upt_rec)
  apply (simp add: interpolate_2)
  done

lemma cross_entropy_example:
  "cross_entropy (- 1) [[[[0, 0], [0, 0]], [[0, ln 3], [0, 0]]]] [[[- 1, 1], [- 1, 0]]]
     = Inr (Fin ((ln 4 - ln 3 + ln 2) / 2))"
proof -
  have "cross_entropy (- 1) [[[[0, 0], [0, 0]], [[0, ln 3], [0, 0]]]] [[[- 1, 1], [- 1, 0]]]
     = Inr (if counted (- 1) [[[- 1, 1], [- 1, 0 :: label]]] = [] then NaN
            else Fin (sum_list (map (\<lambda>(b, y, x).
                    ln (sum_list (map (\<lambda>c. exp ([[[[0, 0], [0, 0]], [[0, ln 3], [0, 0]]]] ! b ! c ! y ! x))
                          [0..<n_classes [[[[0, 0], [0, 0]], [[0, ln 3], [0, 0 :: real]]]]]))
                    - [[[[0, 0], [0, 0]], [[0, ln 3], [0, 0]]]] ! b
                        ! unat ([[[- 1, 1], [- 1, 0 :: label]]] ! b ! y ! x) ! y ! x)
                  (counted (- 1) [[[- 1, 1], [- 1, 0]]]))
                / real (length (counted (- 1) [[[- 1, 1], [- 1, 0 :: label]]]))))"
    by (rule cross_entropy_returns)
      (simp_all add: spatial_def height3_def width3_def height_def width_def counted_example
        is_class_def n_classes_def)
  then show ?thesis
    by (simp add: counted_example n_classes_def upt_rec)
qed

text \<open>
  The step on two batches with these labels: a mask that is valid everywhere, and a mask
  of 8 by 8 pixels whose first pixel is invalid.
\<close>

lemma shared_step_example:
  "shared_step 2
     (\<lambda>_. Inr ([[[[- 3, 5, 1 / 2]]]], [[[[0, 0], [0, 0]], [[0, ln 3], [0, 0]]]]))
     (\<lambda>p t mk. Inr (Fin (p ! 0 ! 0 ! 0 ! 0 + p ! 0 ! 0 ! 0 ! 1 + p ! 0 ! 0 ! 0 ! 2)))
     \<lparr>batch_rgb = (),
      batch_segment_semantic = [[[(255, 255, 255), (2, 0, 0)], [(- 1, 0, 0), (1, 1, 1)]]],
      batch_normal = [],
      batch_mask_valid = T4 [[[[1, 1, 1, 1], [1, 1, 1, 1], [1, 1, 1, 1], [1, 1, 1, 1]]]]\<rparr>
     = Inr \<lparr>normal_loss = Fin (3 / 2),
            semantic_loss = Fin ((ln 4 - ln 3 + ln 2) / 2),
            loss = Fin (15 + (ln 4 - ln 3 + ln 2) / 2)\<rparr>"
  "shared_step 2
     (\<lambda>_. Inr ([[[[- 3, 5, 1 / 2]]]], [[[[0, 0], [0, 0]], [[0, ln 3], [0, 0]]]]))
     (\<lambda>p t mk. Inr (Fin (p ! 0 ! 0 ! 0 ! 0 + p ! 0 ! 0 ! 0 ! 1 + p ! 0 ! 0 ! 0 ! 2)))
     \<lparr>batch_rgb = (),
      batch_segment_semantic = [[[(2, 0, 0), (2, 0, 0)], [(- 1, 0, 0), (1, 1, 1)]]],
      batch_normal = [],
      batch_mask_valid =
        T4 [[[[0, 1, 1, 1, 1, 1, 1, 1], [1, 1, 1, 1, 1, 1, 1, 1], [1, 1, 1, 1, 1, 1, 1, 1],
              [1, 1, 1, 1, 1, 1, 1, 1], [1, 1, 1, 1, 1, 1, 1, 1], [1, 1, 1, 1, 1, 1, 1, 1],
              [1, 1, 1, 1, 1, 1, 1, 1], [1, 1, 1, 1, 1, 1, 1, 1]]]]\<rparr>
     = Inr \<lparr>normal_loss = Fin (3 / 2),
            semantic_loss = Fin ((ln 4 - ln 3 + ln 2) / 2),
            loss = Fin (15 + (ln 4 - ln 3 + ln 2) / 2)\<rparr>"
   apply (simp_all add: shared_step_def make_valid_mask_T4 height_def width_def valid_plane_ones
      valid_plane_corner shifted_labels_example cross_entropy_example clamp_def)
  done

text \<open>
  C1: on a well-shaped batch for which the network and \<^verbatim>\<open>masked_l1_loss\<close> return and the
  semantic predictions have the batch size and the spatial size of the labels,
  \<^verbatim>\<open>shared_step\<close> derives the labels and then:
  if every label that is not \<open>- 1\<close> is a class of the network, it returns the record of
  the normal loss (the masked L1 loss of the predicted normals clamped to \<open>[0, 1]\<close>, under
  the valid mask repeated three times), the semantic loss (the mean over the pixels of
  label other than \<open>- 1\<close> of the log of the sum of the exponentials of the predictions at
  the pixel minus the prediction for the label; NaN when there is no such pixel) and the
  total loss \<open>10 * normal_loss + semantic_loss\<close>; otherwise it raises \<^verbatim>\<open>IndexError\<close>.
  Clamping to \<open>[0, 1]\<close> turns a value below 0 into 0, a value above 1 into 1 and leaves
  the others.
\<close>

theorem shared_step_losses:
  "clamp v 0 1 = (if v < 0 then 0 else if 1 < v then 1 else v) \<and>
   (well_shaped S batch \<and> batch_mask_valid batch = T4 m \<and>
    model (batch_rgb batch) = Inr (normal_preds, semantic_preds) \<and>
    masked_l1_loss
      (map (map (map (map (\<lambda>v. if v < 0 then 0 else if 1 < v then 1 else v)))) normal_preds)
      (batch_normal batch)
      (M4 (map (\<lambda>c. concat (map (\<lambda>p. [p, p, p]) c)) (map (map (valid_plane S 4)) m)))
      = Inr loss_normal \<and>
    length semantic_preds = length (batch_segment_semantic batch) \<and>
    spatial semantic_preds = Some (S, S) \<longrightarrow>
    (\<exists>g. shifted_labels (M4 (map (map (valid_plane S 4)) m)) (batch_segment_semantic batch)
            = Inr g \<and>
         ((\<forall>(b, y, x)\<in>set (counted (- 1) g).
              0 \<le> sint (g ! b ! y ! x) \<and> sint (g ! b ! y ! x) < int (n_classes semantic_preds)) \<longrightarrow>
          (let mean_nll =
                 sum_list (map (\<lambda>(b, y, x).
                     ln (sum_list (map (\<lambda>c. exp (semantic_preds ! b ! c ! y ! x))
                                    [0..<n_classes semantic_preds]))
                     - semantic_preds ! b ! unat (g ! b ! y ! x) ! y ! x) (counted (- 1) g))
                 / real (length (counted (- 1) g))
           in shared_step S model masked_l1_loss batch =
                Inr \<lparr>normal_loss = loss_normal,
                     semantic_loss = (if counted (- 1) g = [] then NaN else Fin mean_nll),
                     loss = (case loss_normal of
                               NaN \<Rightarrow> NaN
                             | Fin l \<Rightarrow> if counted (- 1) g = [] then NaN
                                        else Fin (10 * l + mean_nll))\<rparr>)) \<and>
         ((\<exists>(b, y, x)\<in>set (counted (- 1) g).
              \<not> (0 \<le> sint (g ! b ! y ! x) \<and> sint (g ! b ! y ! x) < int (n_classes semantic_preds))) \<longrightarrow>
          shared_step S model masked_l1_loss batch = Inl IndexError)))"
proof (intro conjI impI)
  show "clamp v 0 1 = (if v < 0 then 0 else if 1 < v then 1 else v)" by (rule clamp_unit)
next
  assume a: "well_shaped S batch \<and> batch_mask_valid batch = T4 m \<and>
    model (batch_rgb batch) = Inr (normal_preds, semantic_preds) \<and>
    masked_l1_loss
      (map (map (map (map (\<lambda>v. if v < 0 then 0 else if 1 < v then 1 else v)))) normal_preds)
      (batch_normal batch)
      (M4 (map (\<lambda>c. concat (map (\<lambda>p. [p, p, p]) c)) (map (map (valid_plane S 4)) m)))
      = Inr loss_normal \<and>
    length semantic_preds = length (batch_segment_semantic batch) \<and>
    spatial semantic_preds = Some (S, S)"
  let ?mv = "M4 (map (map (valid_plane S 4)) m) :: bool mask_out"
  let ?sp = semantic_preds
  from a have ws: "well_shaped S batch" and m: "batch_mask_valid batch = T4 m"
    and md: "model (batch_rgb batch) = Inr (normal_preds, ?sp)"
    and len: "length ?sp = length (batch_segment_semantic batch)"
    and sp: "spatial ?sp = Some (S, S)"
    by simp_all
  from a have l1: "masked_l1_loss (map (map (map (map (\<lambda>v. clamp v 0 1)))) normal_preds)
      (batch_normal batch) (mask_valid_normal ?mv) = Inr loss_normal"
    by (simp add: clamp_unit mask_valid_normal_M4)
  from well_shaped_labels [OF ws m] obtain g
    where mv: "make_valid_mask S (batch_mask_valid batch) 4 = Inr ?mv"
      and g: "shifted_labels ?mv (batch_segment_semantic batch) = Inr g"
      and lg: "length g = length (batch_segment_semantic batch)"
      and hg: "height3 g = S" and wg: "width3 g = S"
    by blast
  have len': "length ?sp = length g" using len lg by simp
  have sp': "spatial ?sp = Some (height3 g, width3 g)" using sp hg wg by simp
  let ?mean = "sum_list (map (\<lambda>(b, y, x).
                     ln (sum_list (map (\<lambda>c. exp (?sp ! b ! c ! y ! x)) [0..<n_classes ?sp]))
                     - ?sp ! b ! unat (g ! b ! y ! x) ! y ! x) (counted (- 1) g))
                 / real (length (counted (- 1) g))"
  have ok: "shared_step S model masked_l1_loss batch =
                Inr \<lparr>normal_loss = loss_normal,
                     semantic_loss = (if counted (- 1) g = [] then NaN else Fin ?mean),
                     loss = (case loss_normal of
                               NaN \<Rightarrow> NaN
                             | Fin l \<Rightarrow> if counted (- 1) g = [] then NaN
                                        else Fin (10 * l + ?mean))\<rparr>"
    if cls: "\<forall>(b, y, x)\<in>set (counted (- 1) g).
              0 \<le> sint (g ! b ! y ! x) \<and> sint (g ! b ! y ! x) < int (n_classes ?sp)"
  proof -
    from cls have "\<forall>(b, y, x)\<in>set (counted (- 1) g). is_class (n_classes ?sp) (g ! b ! y ! x)"
      by (simp add: is_class_def)
    from cross_entropy_returns [OF len' sp' this]
    have ce: "cross_entropy (- 1) ?sp g =
                Inr (if counted (- 1) g = [] then NaN else Fin ?mean)" .
    show ?thesis
      unfolding shared_step_returns
          [where model = model and masked_l1_loss = masked_l1_loss, OF mv g md l1 ce]
        fadd_fmul_10
      by (cases loss_normal) simp_all
  qed
  have bad: "shared_step S model masked_l1_loss batch = Inl IndexError"
    if "\<exists>(b, y, x)\<in>set (counted (- 1) g).
              \<not> (0 \<le> sint (g ! b ! y ! x) \<and> sint (g ! b ! y ! x) < int (n_classes ?sp))"
  proof -
    from that obtain b y x where "(b, y, x) \<in> set (counted (- 1) g)"
      and "\<not> is_class (n_classes ?sp) (g ! b ! y ! x)"
      by (auto simp: is_class_def)
    from cross_entropy_raises [OF len' sp' this]
    show ?thesis
      by (rule shared_step_raises
          [where model = model and masked_l1_loss = masked_l1_loss, OF mv g md l1])
  qed
  from g ok bad show "\<exists>g. shifted_labels ?mv (batch_segment_semantic batch) = Inr g \<and>
         ((\<forall>(b, y, x)\<in>set (counted (- 1) g).
              0 \<le> sint (g ! b ! y ! x) \<and> sint (g ! b ! y ! x) < int (n_classes ?sp)) \<longrightarrow>
          (let mean_nll =
                 sum_list (map (\<lambda>(b, y, x).
                     ln (sum_list (map (\<lambda>c. exp (?sp ! b ! c ! y ! x)) [0..<n_classes ?sp]))
                     - ?sp ! b ! unat (g ! b ! y ! x) ! y ! x) (counted (- 1) g))
                 / real (length (counted (- 1) g))
           in shared_step S model masked_l1_loss batch =
                Inr \<lparr>normal_loss = loss_normal,
                     semantic_loss = (if counted (- 1) g = [] then NaN else Fin mean_nll),
                     loss = (case loss_normal of
                               NaN \<Rightarrow> NaN
                             | Fin l \<Rightarrow> if counted (- 1) g = [] then NaN
                                        else Fin (10 * l + mean_nll))\<rparr>)) \<and>
         ((\<exists>(b, y, x)\<in>set (counted (- 1) g).
              \<not> (0 \<le> sint (g ! b ! y ! x) \<and> sint (g ! b ! y ! x) < int (n_classes ?sp))) \<longrightarrow>
          shared_step S model masked_l1_loss batch = Inl IndexError)"
    unfolding Let_def by blast
qed

theorem shared_step_losses_witness:
  "shared_step 2
     (\<lambda>_. Inr ([[[[- 3, 5, 1 / 2]]]], [[[[0, 0], [0, 0]], [[0, ln 3], [0, 0]]]]))
     (\<lambda>p t mk. Inr (Fin (p ! 0 ! 0 ! 0 ! 0 + p ! 0 ! 0 ! 0 ! 1 + p ! 0 ! 0 ! 0 ! 2)))
     \<lparr>batch_rgb = (),
      batch_segment_semantic = [[[(255, 255, 255), (2, 0, 0)], [(- 1, 0, 0), (1, 1, 1)]]],
      batch_normal = [],
      batch_mask_valid = T4 [[[[1, 1, 1, 1], [1, 1, 1, 1], [1, 1, 1, 1], [1, 1, 1, 1]]]]\<rparr>
     = Inr \<lparr>normal_loss = Fin (3 / 2),
            semantic_loss = Fin ((ln 4 - ln 3 + ln 2) / 2),
            loss = Fin (15 + (ln 4 - ln 3 + ln 2) / 2)\<rparr> \<and>
   clamp (- 3) 0 1 = 0 \<and> clamp 5 0 1 = 1 \<and> clamp (1 / 2) 0 1 = 1 / 2 \<and>
   shared_step 2
     (\<lambda>_. Inr ([[[[- 3, 5, 1 / 2]]]],
               [[[[0, 0], [0, 0]], [[0, 0], [0, 0]], [[0, 0], [0, 0]], [[0, 0], [0, 0]]]]))
     (\<lambda>p t mk. Inr (Fin (p ! 0 ! 0 ! 0 ! 0 + p ! 0 ! 0 ! 0 ! 1 + p ! 0 ! 0 ! 0 ! 2)))
     \<lparr>batch_rgb = (),
      batch_segment_semantic = [[[(255, 255, 255), (3, 0, 0)], [(- 1, 0, 0), (7, 1, 1)]]],
      batch_normal = [],
      batch_mask_valid = T4 [[[[1, 1, 1, 1], [1, 1, 1, 1], [1, 1, 1, 1], [1, 1, 1, 1]]]]\<rparr>
     = Inl IndexError"
proof -
  let ?m = "[[[[1, 1, 1, 1], [1, 1, 1, 1], [1, 1, 1, 1], [1, 1, 1, 1 :: real]]]]"
  let ?np = "[[[[- 3, 5, 1 / 2 :: real]]]]"
  let ?sp = "[[[[0, 0], [0, 0]], [[0, ln 3], [0, 0 :: real]]]]"
  let ?sp4 = "[[[[0, 0], [0, 0]], [[0, 0], [0, 0]], [[0, 0], [0, 0]], [[0, 0], [0, 0 :: real]]]]"
  let ?l1 = "\<lambda>(p :: real plane list list) (t :: real plane list list) (mk :: bool mask_out).
               (Inr (Fin (p ! 0 ! 0 ! 0 ! 0 + p ! 0 ! 0 ! 0 ! 1 + p ! 0 ! 0 ! 0 ! 2)) :: error + fval)"
  let ?batch = "\<lparr>batch_rgb = (),
      batch_segment_semantic = [[[(255, 255, 255), (2, 0, 0)], [(- 1, 0, 0), (1, 1, 1)]]],
      batch_normal = [],
      batch_mask_valid = T4 ?m\<rparr> :: unit batch"
  let ?batch' = "\<lparr>batch_rgb = (),
      batch_segment_semantic = [[[(255, 255, 255), (3, 0, 0)], [(- 1, 0, 0), (7, 1, 1)]]],
      batch_normal = [],
      batch_mask_valid = T4 ?m\<rparr> :: unit batch"
  note T = shared_step_losses
    [where S = 2 and batch = ?batch and m = ?m and model = "\<lambda>_. Inr (?np, ?sp)"
       and normal_preds = ?np and semantic_preds = ?sp and masked_l1_loss = ?l1
       and loss_normal = "Fin (3 / 2)"]
  note T' = shared_step_losses
    [where S = 2 and batch = ?batch' and m = ?m and model = "\<lambda>_. Inr (?np, ?sp4)"
       and normal_preds = ?np and semantic_preds = ?sp4 and masked_l1_loss = ?l1
       and loss_normal = "Fin (3 / 2)"]
  have h: "well_shaped 2 ?batch \<and> batch_mask_valid ?batch = T4 ?m \<and>
      (\<lambda>_. Inr (?np, ?sp)) (batch_rgb ?batch) = Inr (?np, ?sp) \<and>
      ?l1 (map (map (map (map (\<lambda>v. if v < 0 then 0 else if 1 < v then 1 else v)))) ?np)
        (batch_normal ?batch)
        (M4 (map (\<lambda>c. concat (map (\<lambda>p. [p, p, p]) c)) (map (map (valid_plane 2 4)) ?m)))
        = Inr (Fin (3 / 2)) \<and>
      length ?sp = length (batch_segment_semantic ?batch) \<and> spatial ?sp = Some (2, 2)"
    by (simp add: well_shaped_def height_def width_def rect_def spatial_def)
  have h': "well_shaped 2 ?batch' \<and> batch_mask_valid ?batch' = T4 ?m \<and>
      (\<lambda>_. Inr (?np, ?sp4)) (batch_rgb ?batch') = Inr (?np, ?sp4) \<and>
      ?l1 (map (map (map (map (\<lambda>v. if v < 0 then 0 else if 1 < v then 1 else v)))) ?np)
        (batch_normal ?batch')
        (M4 (map (\<lambda>c. concat (map (\<lambda>p. [p, p, p]) c)) (map (map (valid_plane 2 4)) ?m)))
        = Inr (Fin (3 / 2)) \<and>
      length ?sp4 = length (batch_segment_semantic ?batch') \<and> spatial ?sp4 = Some (2, 2)"
    by (simp add: well_shaped_def height_def width_def rect_def spatial_def)
  from T [THEN conjunct2, THEN mp, OF h]
  have 1: "shared_step 2 (\<lambda>_. Inr (?np, ?sp)) ?l1 ?batch
     = Inr \<lparr>normal_loss = Fin (3 / 2),
            semantic_loss = Fin ((ln 4 - ln 3 + ln 2) / 2),
            loss = Fin (15 + (ln 4 - ln 3 + ln 2) / 2)\<rparr>"
    apply (simp add: valid_plane_ones shifted_labels_example counted_example)
    apply (simp add: n_classes_def upt_rec Let_def)
    done
  from T' [THEN conjunct2, THEN mp, OF h']
  have 2: "shared_step 2 (\<lambda>_. Inr (?np, ?sp4)) ?l1 ?batch' = Inl IndexError"
    apply (simp add: valid_plane_ones shifted_labels_example counted_example)
    apply (simp add: n_classes_def Let_def)
    done
  have 3: "clamp (- 3) 0 1 = 0" "clamp 5 0 1 = 1" "clamp (1 / 2) 0 1 = 1 / 2"
    using T [where v = "- 3", THEN conjunct1] T [where v = 5, THEN conjunct1]
      T [where v = "1 / 2", THEN conjunct1]
    by simp_all
  from 1 2 3 show ?thesis by (intro conjI)
qed

text \<open>
  C2: at a pixel whose three channels are 255 the label is 0 before the subtraction of
  one and \<open>- 1\<close> after it, and the pixel is not among the pixels the cross entropy
  averages over: whenever the step returns, its semantic loss is the cross entropy
  against these labels, and the step gives the same result, or raises the same
  exception, whatever the network predicts at that pixel.
\<close>

theorem white_pixel_ignored:
  assumes mv: "make_valid_mask image_size (batch_mask_valid batch) 4 = Inr vmask"
      and g0: "masked_labels vmask (batch_segment_semantic batch) = Inr g0"
      and r: "list_all (rect h w) (batch_segment_semantic batch)"
      and b: "b < length (batch_segment_semantic batch)" and y: "y < h" and x: "x < w"
      and white: "batch_segment_semantic batch ! b ! y ! x = (255, 255, 255)"
      and md: "model (batch_rgb batch) = Inr (normal_preds, semantic_preds)"
      and md': "model' (batch_rgb batch) = Inr (normal_preds, update4 semantic_preds b c y x v)"
  shows "g0 ! b ! y ! x = 0 \<and>
         (\<exists>g. shifted_labels vmask (batch_segment_semantic batch) = Inr g \<and>
              g ! b ! y ! x = - 1 \<and>
              (b, y, x) \<notin> set (counted (- 1) g) \<and>
              (\<forall>res. shared_step image_size model masked_l1_loss batch = Inr res \<longrightarrow>
                     cross_entropy (- 1) semantic_preds g = Inr (semantic_loss res))) \<and>
         shared_step image_size model' masked_l1_loss batch
           = shared_step image_size model masked_l1_loss batch"
proof -
  from g0 obtain m where sq: "squeeze1 vmask = T3 m" by (rule masked_labels_cases)
  have zero: "g0 ! b ! y ! x = 0"
    using masked_labels_nth [OF g0 sq r b y x] white
    by (simp add: background_to_zero_def undefined_to_zero_def)
  from shifted_labels_nth [OF g0 r b y x] obtain g
    where g: "shifted_labels vmask (batch_segment_semantic batch) = Inr g"
      and gx: "g ! b ! y ! x = g0 ! b ! y ! x - 1"
    by blast
  have minus: "g ! b ! y ! x = - 1" using gx zero by simp
  have n: "(b, y, x) \<notin> set (counted (- 1) g)"
    using minus counted_not_ignored by blast
  have sl: "cross_entropy (- 1) semantic_preds g = Inr (semantic_loss res)"
    if "shared_step image_size model masked_l1_loss batch = Inr res" for res
    using that mv g md by (auto elim!: shared_step_cases)
  have same: "shared_step image_size model' masked_l1_loss batch
           = shared_step image_size model masked_l1_loss batch"
    using mv g md md' cross_entropy_update4 [OF n]
    by (auto simp: shared_step_def Let_def split: sum.splits)
  from zero g minus n sl same show ?thesis by blast
qed

text \<open>
  C10: at a pixel where the valid mask is false the label is \<open>- 1\<close> after the product
  with the mask and the subtraction of one, whatever the label image holds there, and the
  pixel is not among the pixels the cross entropy averages over: whenever the step
  returns, its semantic loss is the cross entropy against these labels, and the step
  gives the same result, or raises the same exception, whatever the network predicts at
  that pixel.
\<close>

theorem invalid_pixel_ignored:
  assumes mv: "make_valid_mask image_size (batch_mask_valid batch) 4 = Inr vmask"
      and sq: "squeeze1 vmask = T3 m"
      and g: "shifted_labels vmask (batch_segment_semantic batch) = Inr g"
      and r: "list_all (rect h w) (batch_segment_semantic batch)"
      and b: "b < length (batch_segment_semantic batch)" and y: "y < h" and x: "x < w"
      and invalid: "\<not> m ! bidx (length m) b ! bidx (height3 m) y ! bidx (width3 m) x"
      and md: "model (batch_rgb batch) = Inr (normal_preds, semantic_preds)"
      and md': "model' (batch_rgb batch) = Inr (normal_preds, update4 semantic_preds b c y x v)"
  shows "g ! b ! y ! x = - 1 \<and>
         (b, y, x) \<notin> set (counted (- 1) g) \<and>
         (\<forall>res. shared_step image_size model masked_l1_loss batch = Inr res \<longrightarrow>
                cross_entropy (- 1) semantic_preds g = Inr (semantic_loss res)) \<and>
         shared_step image_size model' masked_l1_loss batch
           = shared_step image_size model masked_l1_loss batch"
proof -
  from g obtain g0 where g0: "masked_labels vmask (batch_segment_semantic batch) = Inr g0"
    by (auto simp: shifted_labels_def split: sum.splits)
  have zero: "g0 ! b ! y ! x = 0"
    using masked_labels_nth [OF g0 sq r b y x] invalid by simp
  from shifted_labels_nth [OF g0 r b y x] g have "g ! b ! y ! x = g0 ! b ! y ! x - 1"
    by auto
  then have minus: "g ! b ! y ! x = - 1" using zero by simp
  have n: "(b, y, x) \<notin> set (counted (- 1) g)"
    using minus counted_not_ignored by blast
  have sl: "cross_entropy (- 1) semantic_preds g = Inr (semantic_loss res)"
    if "shared_step image_size model masked_l1_loss batch = Inr res" for res
    using that mv g md by (auto elim!: shared_step_cases)
  have same: "shared_step image_size model' masked_l1_loss batch
           = shared_step image_size model masked_l1_loss batch"
    using mv g md md' cross_entropy_update4 [OF n]
    by (auto simp: shared_step_def Let_def split: sum.splits)
  from minus n sl same show ?thesis by blast
qed

theorem white_pixel_ignored_witness:
  "masked_labels (M4 [[[[True, True], [True, True]]]])
     [[[(255, 255, 255), (2, 0, 0)], [(- 1, 0, 0), (1, 1, 1)]]] = Inr [[[0, 2], [0, 1]]] \<and>
   shifted_labels (M4 [[[[True, True], [True, True]]]])
     [[[(255, 255, 255), (2, 0, 0)], [(- 1, 0, 0), (1, 1, 1)]]] = Inr [[[- 1, 1], [- 1, 0]]] \<and>
   (0, 0, 0) \<notin> set (counted (- 1) [[[- 1, 1], [- 1, 0]]]) \<and>
   cross_entropy (- 1) [[[[0, 0], [0, 0]], [[0, ln 3], [0, 0]]]] [[[- 1, 1], [- 1, 0]]]
     = Inr (Fin ((ln 4 - ln 3 + ln 2) / 2)) \<and>
   update4 [[[[0, 0], [0, 0]], [[0, ln 3], [0, 0]]]] 0 1 0 0 (100 :: real)
     = [[[[0, 0], [0, 0]], [[100, ln 3], [0, 0]]]] \<and>
   shared_step 2
     (\<lambda>_. Inr ([[[[- 3, 5, 1 / 2]]]], [[[[0, 0], [0, 0]], [[100, ln 3], [0, 0]]]]))
     (\<lambda>p t mk. Inr (Fin (p ! 0 ! 0 ! 0 ! 0 + p ! 0 ! 0 ! 0 ! 1 + p ! 0 ! 0 ! 0 ! 2)))
     \<lparr>batch_rgb = (),
      batch_segment_semantic = [[[(255, 255, 255), (2, 0, 0)], [(- 1, 0, 0), (1, 1, 1)]]],
      batch_normal = [],
      batch_mask_valid = T4 [[[[1, 1, 1, 1], [1, 1, 1, 1], [1, 1, 1, 1], [1, 1, 1, 1]]]]\<rparr>
     = Inr \<lparr>normal_loss = Fin (3 / 2),
            semantic_loss = Fin ((ln 4 - ln 3 + ln 2) / 2),
            loss = Fin (15 + (ln 4 - ln 3 + ln 2) / 2)\<rparr>"
proof -
  let ?np = "[[[[- 3, 5, 1 / 2 :: real]]]]"
  let ?sp = "[[[[0, 0], [0, 0]], [[0, ln 3], [0, 0 :: real]]]]"
  let ?sp' = "[[[[0, 0], [0, 0]], [[100, ln 3], [0, 0 :: real]]]]"
  let ?l1 = "\<lambda>(p :: real plane list list) (t :: real plane list list) (mk :: bool mask_out).
               (Inr (Fin (p ! 0 ! 0 ! 0 ! 0 + p ! 0 ! 0 ! 0 ! 1 + p ! 0 ! 0 ! 0 ! 2)) :: error + fval)"
  let ?sem = "[[[(255, 255, 255), (2, 0, 0)], [(- 1, 0, 0), (1, 1, 1)]]] :: pixel plane list"
  let ?batch = "\<lparr>batch_rgb = (), batch_segment_semantic = ?sem, batch_normal = [],
      batch_mask_valid = T4 [[[[1, 1, 1, 1], [1, 1, 1, 1], [1, 1, 1, 1], [1, 1, 1, 1]]]]\<rparr>
      :: unit batch"
  let ?mv = "M4 [[[[True, True], [True, True]]]]"
  have u: "update4 ?sp 0 1 0 0 100 = ?sp'"
    by (simp add: update4_def)
  have mv: "make_valid_mask 2 (batch_mask_valid ?batch) 4 = Inr ?mv"
    by (simp add: make_valid_mask_T4 height_def width_def valid_plane_ones)
  have g0: "masked_labels ?mv ?sem = Inr [[[0, 2], [0, 1]]]"
    by (simp add: masked_labels_def squeeze1_def imul_mask3_def
        broadcasts_def bidx_def height3_def width3_def height_def width_def
        background_to_zero_def undefined_to_zero_def upt_rec)
  have g0': "masked_labels ?mv (batch_segment_semantic ?batch) = Inr [[[0, 2], [0, 1]]]"
    using g0 by simp
  have r: "list_all (rect 2 2) (batch_segment_semantic ?batch)"
    by (simp add: rect_def)
  have b: "0 < length (batch_segment_semantic ?batch)" by simp
  have w: "batch_segment_semantic ?batch ! 0 ! 0 ! 0 = (255, 255, 255)" by simp
  have two: "(0::nat) < 2" by simp
  have md: "(\<lambda>_. Inr (?np, ?sp)) (batch_rgb ?batch) = Inr (?np, ?sp)" by simp
  have md': "(\<lambda>_. Inr (?np, ?sp')) (batch_rgb ?batch) = Inr (?np, update4 ?sp 0 1 0 0 100)"
    unfolding u by simp
  note T = white_pixel_ignored
    [where model = "\<lambda>_. Inr (?np, ?sp)" and model' = "\<lambda>_. Inr (?np, ?sp')"
       and masked_l1_loss = ?l1, OF mv g0' r b two two w md md']
  from T obtain g
    where g: "shifted_labels ?mv (batch_segment_semantic ?batch) = Inr g"
      and n': "(0, 0, 0) \<notin> set (counted (- 1) g)"
      and sl: "\<forall>res. shared_step 2 (\<lambda>_. Inr (?np, ?sp)) ?l1 ?batch = Inr res \<longrightarrow>
                    cross_entropy (- 1) ?sp g = Inr (semantic_loss res)"
    by blast
  from g have ge: "g = [[[- 1, 1], [- 1, 0]]]"
    by (simp add: shifted_labels_example)
  from n' have n: "(0, 0, 0) \<notin> set (counted (- 1) [[[- 1, 1], [- 1, 0 :: label]]])"
    unfolding ge .
  from sl [THEN spec, THEN mp, OF shared_step_example(1)]
  have ce: "cross_entropy (- 1) ?sp [[[- 1, 1], [- 1, 0]]]
      = Inr (Fin ((ln 4 - ln 3 + ln 2) / 2))"
    unfolding ge by simp
  from T have st: "shared_step 2 (\<lambda>_. Inr (?np, ?sp')) ?l1 ?batch
     = Inr \<lparr>normal_loss = Fin (3 / 2),
            semantic_loss = Fin ((ln 4 - ln 3 + ln 2) / 2),
            loss = Fin (15 + (ln 4 - ln 3 + ln 2) / 2)\<rparr>"
    by (simp only: shared_step_example)
  from g0 shifted_labels_example(1) n ce u st show ?thesis by (intro conjI)
qed

theorem invalid_pixel_ignored_witness:
  "make_valid_mask 2
     (T4 [[[[0, 1, 1, 1, 1, 1, 1, 1], [1, 1, 1, 1, 1, 1, 1, 1], [1, 1, 1, 1, 1, 1, 1, 1],
            [1, 1, 1, 1, 1, 1, 1, 1], [1, 1, 1, 1, 1, 1, 1, 1], [1, 1, 1, 1, 1, 1, 1, 1],
            [1, 1, 1, 1, 1, 1, 1, 1], [1, 1, 1, 1, 1, 1, 1, 1]]]]) 4
     = Inr (M4 [[[[False, True], [True, True]]]]) \<and>
   shifted_labels (M4 [[[[False, True], [True, True]]]])
     [[[(2, 0, 0), (2, 0, 0)], [(- 1, 0, 0), (1, 1, 1)]]] = Inr [[[- 1, 1], [- 1, 0]]] \<and>
   (0, 0, 0) \<notin> set (counted (- 1) [[[- 1, 1], [- 1, 0]]]) \<and>
   cross_entropy (- 1) [[[[0, 0], [0, 0]], [[0, ln 3], [0, 0]]]] [[[- 1, 1], [- 1, 0]]]
     = Inr (Fin ((ln 4 - ln 3 + ln 2) / 2)) \<and>
   update4 [[[[0, 0], [0, 0]], [[0, ln 3], [0, 0]]]] 0 0 0 0 (- 7 :: real)
     = [[[[- 7, 0], [0, 0]], [[0, ln 3], [0, 0]]]] \<and>
   shared_step 2
     (\<lambda>_. Inr ([[[[- 3, 5, 1 / 2]]]], [[[[- 7, 0], [0, 0]], [[0, ln 3], [0, 0]]]]))
     (\<lambda>p t mk. Inr (Fin (p ! 0 ! 0 ! 0 ! 0 + p ! 0 ! 0 ! 0 ! 1 + p ! 0 ! 0 ! 0 ! 2)))
     \<lparr>batch_rgb = (),
      batch_segment_semantic = [[[(2, 0, 0), (2, 0, 0)], [(- 1, 0, 0), (1, 1, 1)]]],
      batch_normal = [],
      batch_mask_valid =
        T4 [[[[0, 1, 1, 1, 1, 1, 1, 1], [1, 1, 1, 1, 1, 1, 1, 1], [1, 1, 1, 1, 1, 1, 1, 1],
              [1, 1, 1, 1, 1, 1, 1, 1], [1, 1, 1, 1, 1, 1, 1, 1], [1, 1, 1, 1, 1, 1, 1, 1],
              [1, 1, 1, 1, 1, 1, 1, 1], [1, 1, 1, 1, 1, 1, 1, 1]]]]\<rparr>
     = Inr \<lparr>normal_loss = Fin (3 / 2),
            semantic_loss = Fin ((ln 4 - ln 3 + ln 2) / 2),
            loss = Fin (15 + (ln 4 - ln 3 + ln 2) / 2)\<rparr>"
proof -
  let ?np = "[[[[- 3, 5, 1 / 2 :: real]]]]"
  let ?sp = "[[[[0, 0], [0, 0]], [[0, ln 3], [0, 0 :: real]]]]"
  let ?sp' = "[[[[- 7, 0], [0, 0]], [[0, ln 3], [0, 0 :: real]]]]"
  let ?l1 = "\<lambda>(p :: real plane list list) (t :: real plane list list) (mk :: bool mask_out).
               (Inr (Fin (p ! 0 ! 0 ! 0 ! 0 + p ! 0 ! 0 ! 0 ! 1 + p ! 0 ! 0 ! 0 ! 2)) :: error + fval)"
  let ?sem = "[[[(2, 0, 0), (2, 0, 0)], [(- 1, 0, 0), (1, 1, 1)]]] :: pixel plane list"
  let ?mask = "T4 [[[[0, 1, 1, 1, 1, 1, 1, 1], [1, 1, 1, 1, 1, 1, 1, 1], [1, 1, 1, 1, 1, 1, 1, 1],
              [1, 1, 1, 1, 1, 1, 1, 1], [1, 1, 1, 1, 1, 1, 1, 1], [1, 1, 1, 1, 1, 1, 1, 1],
              [1, 1, 1, 1, 1, 1, 1, 1], [1, 1, 1, 1, 1, 1, 1, 1 :: real]]]]"
  let ?batch = "\<lparr>batch_rgb = (), batch_segment_semantic = ?sem, batch_normal = [],
      batch_mask_valid = ?mask\<rparr> :: unit batch"
  let ?m = "[[[False, True], [True, True]]]"
  have u: "update4 ?sp 0 0 0 0 (- 7) = ?sp'"
    by (simp add: update4_def)
  have mv: "make_valid_mask 2 ?mask 4 = Inr (M4 [?m])"
    by (simp add: make_valid_mask_T4 height_def width_def valid_plane_corner)
  have mv': "make_valid_mask 2 (batch_mask_valid ?batch) 4 = Inr (M4 [?m])"
    using mv by simp
  have sq: "squeeze1 (M4 [?m]) = T3 ?m"
    by (simp add: squeeze1_def)
  have g': "shifted_labels (M4 [?m]) (batch_segment_semantic ?batch)
      = Inr [[[- 1, 1], [- 1, 0]]]"
    by (simp add: shifted_labels_example)
  have r: "list_all (rect 2 2) (batch_segment_semantic ?batch)"
    by (simp add: rect_def)
  have b: "0 < length (batch_segment_semantic ?batch)" by simp
  have two: "(0::nat) < 2" by simp
  have inv: "\<not> ?m ! bidx (length ?m) 0 ! bidx (height3 ?m) 0 ! bidx (width3 ?m) 0"
    by (simp add: bidx_def height3_def width3_def height_def width_def)
  have md: "(\<lambda>_. Inr (?np, ?sp)) (batch_rgb ?batch) = Inr (?np, ?sp)" by simp
  have md': "(\<lambda>_. Inr (?np, ?sp')) (batch_rgb ?batch) = Inr (?np, update4 ?sp 0 0 0 0 (- 7))"
    unfolding u by simp
  note T = invalid_pixel_ignored
    [where model = "\<lambda>_. Inr (?np, ?sp)" and model' = "\<lambda>_. Inr (?np, ?sp')"
       and masked_l1_loss = ?l1, OF mv' sq g' r b two two inv md md']
  from T have n: "(0, 0, 0) \<notin> set (counted (- 1) [[[- 1, 1], [- 1, 0 :: label]]])"
    by simp
  from T [THEN conjunct2, THEN conjunct2, THEN conjunct1, THEN spec, THEN mp,
      OF shared_step_example(2)]
  have ce: "cross_entropy (- 1) ?sp [[[- 1, 1], [- 1, 0]]]
      = Inr (Fin ((ln 4 - ln 3 + ln 2) / 2))"
    by simp
  from T have st: "shared_step 2 (\<lambda>_. Inr (?np, ?sp')) ?l1 ?batch
     = Inr \<lparr>normal_loss = Fin (3 / 2),
            semantic_loss = Fin ((ln 4 - ln 3 + ln 2) / 2),
            loss = Fin (15 + (ln 4 - ln 3 + ln 2) / 2)\<rparr>"
    by (simp only: shared_step_example)
  from mv shifted_labels_example(3) n ce u st show ?thesis by (intro conjI)
qed

section \<open>Properties of the validation images\<close>

subsection \<open>The validation datasets\<close>

lemma log_images_other: "k \<notin> keys_of dataset \<Longrightarrow> log_images dataset img_idx all k = all k"
  by (simp add: log_images_def log_image_def keys_of_def)

lemma log_images_rgb:
  "log_images dataset img_idx all (''rgb-'' @ dataset) = all (''rgb-'' @ dataset) @ [img_idx]"
  by (simp add: log_images_def log_image_def)

lemma log_images_changes: "log_images dataset img_idx all \<noteq> all"
proof
  assume "log_images dataset img_idx all = all"
  then have "log_images dataset img_idx all (''rgb-'' @ dataset) = all (''rgb-'' @ dataset)"
    by simp
  then show False by (simp only: log_images_rgb) simp
qed

lemma log_example_other:
  assumes "log_example S dataset img_idx ex all = Inr all'" "k \<notin> keys_of dataset"
  shows "all' k = all k"
  using assms
  by (auto simp: log_example_def Let_def log_images_other split: sum.splits if_splits)

lemma log_samples_other:
  assumes "log_samples S valset dataset idxs all = Inr all'" "k \<notin> keys_of dataset"
  shows "all' k = all k"
  using assms
proof (induction idxs arbitrary: all)
  case Nil
  then show ?case by simp
next
  case (Cons i idxs)
  from Cons.prems(1) obtain all1
    where 1: "log_example S dataset i (valset ! i) all = Inr all1"
      and 2: "log_samples S valset dataset idxs all1 = Inr all'"
    by (auto split: if_splits sum.splits)
  from Cons.IH [OF 2 Cons.prems(2)] log_example_other [OF 1 Cons.prems(2)]
  show ?case by simp
qed

lemma log_datasets_other:
  assumes "log_datasets S valset val_samples ds all = Inr all'" "\<forall>d\<in>set ds. k \<notin> keys_of d"
  shows "all' k = all k"
  using assms
proof (induction ds arbitrary: all)
  case Nil
  then show ?case by simp
next
  case (Cons d ds)
  from Cons.prems(1) obtain all1
    where 1: "log_samples S valset d (val_samples d) all = Inr all1"
      and 2: "log_datasets S valset val_samples ds all1 = Inr all'"
    by (auto split: sum.splits)
  from Cons.prems(2) have kd: "k \<notin> keys_of d" and rest: "\<forall>d\<in>set ds. k \<notin> keys_of d" by auto
  from Cons.IH [OF 2 rest] log_samples_other [OF 1 kd]
  show ?case by simp
qed

lemma log_datasets_unread:
  assumes "d \<notin> set ds"
  shows "log_datasets S valset (val_samples(d := xs)) ds all
           = log_datasets S valset val_samples ds all"
  using assms
  by (induction ds arbitrary: all) (auto split: sum.splits)

text \<open>
  C9, as stated, fails: with the default flags (and with any others) the list of
  validation datasets does not hold \<open>gso\<close>.
\<close>

theorem gso_not_validated:
  "''gso'' \<notin> set (val_datasets (setup_datasets
      \<lparr>use_taskonomy = True, use_replica = True, use_gso = False, use_hypersim = True\<rparr>))"
  by (simp add: setup_datasets_def)

text \<open>
  C9, amended: whatever the flags, the validation datasets are \<open>taskonomy\<close>, \<open>replica\<close> and
  \<open>hypersim\<close>, and \<open>gso\<close> is a training dataset exactly when \<^verbatim>\<open>use_gso\<close> is set. The
  visualization loop never reads the gso bucket of the curated samples, and logs nothing
  under a key of the gso dataset.
\<close>

theorem validation_without_gso:
  "val_datasets (setup_datasets fl) = [''taskonomy'', ''replica'', ''hypersim''] \<and>
   (''gso'' \<in> set (train_datasets (setup_datasets fl))) = use_gso fl \<and>
   log_validation_example_images S (val_datasets (setup_datasets fl))
       (val_samples(''gso'' := xs)) valset
     = log_validation_example_images S (val_datasets (setup_datasets fl)) val_samples valset \<and>
   (case log_validation_example_images S (val_datasets (setup_datasets fl)) val_samples valset of
      Inl e \<Rightarrow> True
    | Inr all \<Rightarrow> list_all (\<lambda>k. all k = [])
        [''rgb-gso'', ''gt-semantic-gso'', ''pred-semantic-gso'', ''gt-normal-gso'',
         ''pred-normal-gso''])"
proof (intro conjI)
  show v: "val_datasets (setup_datasets fl) = [''taskonomy'', ''replica'', ''hypersim'']"
    by (simp add: setup_datasets_def)
  show "(''gso'' \<in> set (train_datasets (setup_datasets fl))) = use_gso fl"
    by (simp add: setup_datasets_def)
  have n: "''gso'' \<notin> set (val_datasets (setup_datasets fl))"
    by (simp add: v)
  show "log_validation_example_images S (val_datasets (setup_datasets fl))
       (val_samples(''gso'' := xs)) valset
     = log_validation_example_images S (val_datasets (setup_datasets fl)) val_samples valset"
    unfolding log_validation_example_images_def by (rule log_datasets_unread [OF n])
  show "case log_validation_example_images S (val_datasets (setup_datasets fl)) val_samples valset of
      Inl e \<Rightarrow> True
    | Inr all \<Rightarrow> list_all (\<lambda>k. all k = [])
        [''rgb-gso'', ''gt-semantic-gso'', ''pred-semantic-gso'', ''gt-normal-gso'',
         ''pred-normal-gso'']"
  proof (cases "log_validation_example_images S (val_datasets (setup_datasets fl)) val_samples valset")
    case (Inl e)
    then show ?thesis by simp
  next
    case (Inr all)
    then have l: "log_datasets S valset val_samples [''taskonomy'', ''replica'', ''hypersim'']
                    (\<lambda>_. []) = Inr all"
      by (simp add: log_validation_example_images_def v)
    have "all k = []"
      if "\<forall>d\<in>set [''taskonomy'', ''replica'', ''hypersim'']. k \<notin> keys_of d" for k
      using log_datasets_other [OF l that] by simp
    then show ?thesis
      by (simp add: Inr keys_of_def)
  qed
qed

theorem validation_without_gso_witness:
  "val_datasets (setup_datasets
      \<lparr>use_taskonomy = True, use_replica = True, use_gso = True, use_hypersim = True\<rparr>)
     = [''taskonomy'', ''replica'', ''hypersim''] \<and>
   ''gso'' \<in> set (train_datasets (setup_datasets
      \<lparr>use_taskonomy = True, use_replica = True, use_gso = True, use_hypersim = True\<rparr>))"
  using validation_without_gso
    [where fl = "\<lparr>use_taskonomy = True, use_replica = True, use_gso = True, use_hypersim = True\<rparr>",
     THEN conjunct1]
    validation_without_gso
    [where fl = "\<lparr>use_taskonomy = True, use_replica = True, use_gso = True, use_hypersim = True\<rparr>",
     THEN conjunct2, THEN conjunct1]
  by simp

subsection \<open>Skipping a sample\<close>

lemma mask_sum_zero: "mask_sum m = 0 \<longleftrightarrow> (\<forall>r\<in>set m. \<forall>v\<in>set r. \<not> v)"
  by (auto simp: mask_sum_def filter_empty_conv)

lemma skipped_iff:
  assumes "final_labels S dataset ex = Inr g"
  shows "skipped S dataset ex \<longleftrightarrow> (\<forall>r\<in>set g. \<forall>l\<in>set r. l = 0)"
  using assms by (auto simp: skipped_def mask_sum_zero)

lemma log_example_result:
  assumes "log_example S dataset img_idx ex all = Inr all'"
  shows "all' = (if skipped S dataset ex then all else log_images dataset img_idx all) \<and>
         (\<exists>g. final_labels S dataset ex = Inr g)"
  using assms by (auto simp: log_example_def skipped_def Let_def split: sum.splits if_splits)

lemma log_images_key:
  "k \<in> keys_of dataset \<Longrightarrow> log_images dataset img_idx all k = all k @ [img_idx]"
  by (auto simp: log_images_def log_image_def keys_of_def)

lemma keys_of_disjoint: "k \<in> keys_of d \<Longrightarrow> k \<in> keys_of d' \<Longrightarrow> d = d'"
  by (auto simp: keys_of_def)

text \<open>
  The inner loop appends, under each key of its dataset, the samples that are not
  skipped, in their order; it returns only if no sample raises.
\<close>

lemma log_samples_key:
  assumes "log_samples S valset dataset idxs all = Inr all'" "k \<in> keys_of dataset"
  shows "all' k = all k @ filter (\<lambda>i. \<not> skipped S dataset (valset ! i)) idxs \<and>
         (\<forall>i\<in>set idxs. i < length valset \<and> (\<exists>g. final_labels S dataset (valset ! i) = Inr g))"
  using assms
proof (induction idxs arbitrary: all)
  case Nil
  then show ?case by simp
next
  case (Cons i idxs)
  from Cons.prems(1) have i: "i < length valset"
    by (auto split: if_splits)
  with Cons.prems(1) obtain all1
    where 1: "log_example S dataset i (valset ! i) all = Inr all1"
      and 2: "log_samples S valset dataset idxs all1 = Inr all'"
    by (auto split: sum.splits)
  from log_example_result [OF 1]
  have a1: "all1 = (if skipped S dataset (valset ! i) then all else log_images dataset i all)"
    and fl: "\<exists>g. final_labels S dataset (valset ! i) = Inr g"
    by simp_all
  from a1 have k1: "all1 k = all k @ filter (\<lambda>i. \<not> skipped S dataset (valset ! i)) [i]"
    by (simp add: log_images_key [OF Cons.prems(2)])
  from Cons.IH [OF 2 Cons.prems(2)] k1 i fl show ?case by simp
qed

lemma log_datasets_key:
  assumes "log_datasets S valset val_samples ds all = Inr all'"
      and "distinct ds" "d \<in> set ds" "k \<in> keys_of d"
  shows "all' k = all k @ filter (\<lambda>i. \<not> skipped S d (valset ! i)) (val_samples d) \<and>
         (\<forall>i\<in>set (val_samples d).
            i < length valset \<and> (\<exists>g. final_labels S d (valset ! i) = Inr g))"
  using assms
proof (induction ds arbitrary: all)
  case Nil
  then show ?case by simp
next
  case (Cons d0 ds)
  from Cons.prems(1) obtain all1
    where 1: "log_samples S valset d0 (val_samples d0) all = Inr all1"
      and 2: "log_datasets S valset val_samples ds all1 = Inr all'"
    by (auto split: sum.splits)
  show ?case
  proof (cases "d = d0")
    case True
    with Cons.prems(2) have "\<forall>d'\<in>set ds. k \<notin> keys_of d'"
      using keys_of_disjoint [OF Cons.prems(4)] by auto
    from log_datasets_other [OF 2 this] have "all' k = all1 k" .
    with log_samples_key [OF 1, of k] Cons.prems(4) True show ?thesis by simp
  next
    case False
    with Cons.prems(3) have d: "d \<in> set ds" by simp
    from False have "k \<notin> keys_of d0"
      using keys_of_disjoint [OF Cons.prems(4)] by auto
    from log_samples_other [OF 1 this] have "all1 k = all k" .
    moreover from Cons.prems(2) have "distinct ds" by simp
    ultimately show ?thesis
      using Cons.IH [OF 2 _ d Cons.prems(4)] by simp
  qed
qed

lemma rect_nth_mem:
  assumes "rect h w m" "i < h" "j < w"
  shows "m ! i ! j \<in> \<Union> (set ` set m)"
proof -
  from assms have "m ! i \<in> set m" "m ! i ! j \<in> set (m ! i)"
    by (auto simp: rect_def list_all_length)
  then show ?thesis by blast
qed

lemma rect_all_iff:
  assumes "rect h w g"
  shows "(\<forall>r\<in>set g. \<forall>l\<in>set r. P l) \<longleftrightarrow> (\<forall>y<h. \<forall>x<w. P (g ! y ! x))"
  using assms by (auto simp: rect_def list_all_length all_set_conv_all_nth)

text \<open>The steps of a sample whose final labels are computed.\<close>

lemma final_labels_cases:
  assumes "final_labels S dataset ex = Inr g"
  obtains mk
  where "0 < S"
    and "squeeze_all S (map (valid_plane S 4) (mask_valid ex)) = Some mk"
    and "imul_mask2 (map (map (decode_label dataset)) (segment_semantic ex)) mk = Inr g"
proof -
  have "make_valid_mask S (T3 (mask_valid ex)) 4 \<noteq> Inl RuntimeError"
    using assms by (auto simp: final_labels_def)
  then have S: "0 < S"
    and mv: "make_valid_mask S (T3 (mask_valid ex)) 4
               = Inr (M4 [map (valid_plane S 4) (mask_valid ex)])"
    by (auto simp: make_valid_mask_T3 split: if_splits)
  from assms obtain mk
    where "squeeze_all S (map (valid_plane S 4) (mask_valid ex)) = Some mk"
      and "imul_mask2 (map (map (decode_label dataset)) (segment_semantic ex)) mk = Inr g"
    by (auto simp: final_labels_def mv split: if_splits option.splits)
  with S that show ?thesis by blast
qed

text \<open>
  What is left of the mask after \<^verbatim>\<open>squeeze\<close> is a rectangle, and each of its entries is
  an entry of a channel of the mask.
\<close>

lemma squeeze_all_entries:
  assumes sq: "squeeze_all S (map (valid_plane S 4) chs) = Some mk" and S: "0 < S"
  shows "rect (height mk) (width mk) mk \<and>
         (\<forall>y<height mk. \<forall>x<width mk.
            \<exists>p\<in>set (map (valid_plane S 4) chs). mk ! y ! x \<in> \<Union> (set ` set p))"
proof (cases "length chs = 1")
  case True
  then obtain c where c: "chs = [c]" by (cases chs) auto
  with sq have mk: "mk = valid_plane S 4 c" by (simp add: squeeze_all_def)
  have r: "rect S S mk" unfolding mk by (rule rect_valid_plane)
  have h: "height mk = S" using r by (rule rect_height)
  have w: "width mk = S" using r S by (rule rect_width)
  have "mk ! y ! x \<in> \<Union> (set ` set mk)" if "y < S" "x < S" for y x
    using r that by (rule rect_nth_mem)
  then show ?thesis using r h w by (auto simp: c mk)
next
  case False
  with sq have S1: "S = 1" and mk: "mk = [map (\<lambda>p. p ! 0 ! 0) (map (valid_plane S 4) chs)]"
    by (auto simp: squeeze_all_def split: if_splits)
  have h: "height mk = 1" by (simp add: mk height_def)
  have w: "width mk = length chs" by (simp add: mk width_def)
  have r: "rect (height mk) (width mk) mk" by (simp add: h w) (simp add: mk rect_def)
  have "\<exists>p\<in>set (map (valid_plane S 4) chs). mk ! 0 ! x \<in> \<Union> (set ` set p)"
    if x: "x < length chs" for x
  proof -
    let ?p = "valid_plane S 4 (chs ! x)"
    have "rect 1 1 ?p" using rect_valid_plane [of S 4 "chs ! x"] S1 by simp
    then have "?p ! 0 ! 0 \<in> \<Union> (set ` set ?p)" by (rule rect_nth_mem) simp_all
    moreover have "mk ! 0 ! x = ?p ! 0 ! 0" using x by (simp add: mk)
    ultimately have e: "mk ! 0 ! x \<in> \<Union> (set ` set ?p)" by simp
    have "?p \<in> set (map (valid_plane S 4) chs)" using x by simp
    then show ?thesis using e by (rule bexI [rotated])
  qed
  then show ?thesis using r h w by auto
qed

lemma final_labels_entries:
  assumes fl: "final_labels S dataset ex = Inr g"
      and sq: "squeeze_all S (map (valid_plane S 4) (mask_valid ex)) = Some mk"
      and r: "rect h w (segment_semantic ex)"
  shows "rect h w g \<and>
         (\<forall>y<h. \<forall>x<w. g ! y ! x =
            decode_label dataset (segment_semantic ex ! y ! x) *
            (if mk ! bidx (height mk) y ! bidx (width mk) x then 1 else 0)) \<and>
         (\<forall>y<h. \<forall>x<w. bidx (height mk) y < height mk \<and> bidx (width mk) x < width mk)"
proof -
  let ?sem = "segment_semantic ex"
  let ?D = "map (map (decode_label dataset)) ?sem"
  from fl obtain mk' where S: "0 < S"
    and sq': "squeeze_all S (map (valid_plane S 4) (mask_valid ex)) = Some mk'"
    and im': "imul_mask2 ?D mk' = Inr g"
    by (rule final_labels_cases)
  from sq sq' im' have im: "imul_mask2 ?D mk = Inr g" by simp
  have rD: "rect h w ?D" using r by (rule rect_map)
  have hD: "height ?D = h" using rD by (rule rect_height)
  have wD: "width ?D = w" if "0 < h" using rD that by (rule rect_width)
  have rg: "rect h w g"
  proof (cases "h = 0")
    case True
    with im hD show ?thesis
      by (auto simp: imul_mask2_def rect_def split: if_splits)
  next
    case False
    with imul_mask2_rect [OF im] hD wD show ?thesis by simp
  qed
  have entry: "g ! y ! x = decode_label dataset (?sem ! y ! x) *
                 (if mk ! bidx (height mk) y ! bidx (width mk) x then 1 else 0)"
    if "y < h" "x < w" for y x
  proof -
    from that have h0: "0 < h" by simp
    have "?D ! y ! x = decode_label dataset (?sem ! y ! x)"
      using that r by (simp add: rect_def list_all_length)
    then show ?thesis
      using imul_mask2_nth [OF im, of y x] that hD wD [OF h0] by simp
  qed
  have inside: "bidx (height mk) y < height mk \<and> bidx (width mk) x < width mk"
    if "y < h" "x < w" for y x
  proof -
    from that have h0: "0 < h" by simp
    from im have "broadcasts (height mk) h" "broadcasts (width mk) w"
      using hD wD [OF h0] by (auto simp: imul_mask2_def split: if_splits)
    then show ?thesis using that by (auto simp: broadcasts_def bidx_def)
  qed
  from rg entry inside show ?thesis by blast
qed

text \<open>
  A sample is skipped exactly when no pixel is both valid and of a label other than 0;
  so it is when no entry of its valid mask is true.
\<close>

lemma skipped_pixels:
  assumes fl: "final_labels S dataset ex = Inr g"
      and sq: "squeeze_all S (map (valid_plane S 4) (mask_valid ex)) = Some mk"
      and r: "rect h w (segment_semantic ex)"
  shows "(skipped S dataset ex \<longleftrightarrow>
            (\<forall>y<h. \<forall>x<w. \<not> (mk ! bidx (height mk) y ! bidx (width mk) x \<and>
                               decode_label dataset (segment_semantic ex ! y ! x) \<noteq> 0))) \<and>
         ((\<forall>p\<in>set (map (valid_plane S 4) (mask_valid ex)). mask_sum p = 0) \<longrightarrow>
            skipped S dataset ex)"
proof -
  let ?v = "\<lambda>y x. mk ! bidx (height mk) y ! bidx (width mk) x"
  let ?l = "\<lambda>y x. decode_label dataset (segment_semantic ex ! y ! x)"
  from final_labels_entries [OF fl sq r]
  have rg: "rect h w g"
    and entry: "\<forall>y<h. \<forall>x<w. g ! y ! x = ?l y x * (if ?v y x then 1 else 0)"
    and inside: "\<forall>y<h. \<forall>x<w. bidx (height mk) y < height mk \<and> bidx (width mk) x < width mk"
    by simp_all
  have iff: "skipped S dataset ex \<longleftrightarrow> (\<forall>y<h. \<forall>x<w. \<not> (?v y x \<and> ?l y x \<noteq> 0))"
    unfolding skipped_iff [OF fl] rect_all_iff [OF rg] using entry by auto
  have none: "skipped S dataset ex"
    if ms: "\<forall>p\<in>set (map (valid_plane S 4) (mask_valid ex)). mask_sum p = 0"
  proof -
    from fl have S: "0 < S" by (rule final_labels_cases)
    have "\<not> ?v y x" if yx: "y < h" "x < w" for y x
    proof -
      from inside yx have "bidx (height mk) y < height mk" "bidx (width mk) x < width mk"
        by simp_all
      with squeeze_all_entries [OF sq S]
      obtain p where "p \<in> set (map (valid_plane S 4) (mask_valid ex))"
        and "?v y x \<in> \<Union> (set ` set p)"
        by blast
      with ms show ?thesis by (auto simp: mask_sum_zero)
    qed
    then show ?thesis unfolding iff by blast
  qed
  from iff none show ?thesis by blast
qed

subsection \<open>Two samples of 2 by 2 pixels and one of 4 by 4\<close>

lemma valid_plane_ones_4:
  "valid_plane 4 4 [[1, 1, 1, 1], [1, 1, 1, 1], [1, 1, 1, 1], [1, 1, 1, 1]]
     = [[True, True, True, True], [True, True, True, True],
        [True, True, True, True], [True, True, True, True]]"
  apply (simp add: valid_plane_def max_pool2d_def height_def width_def)
  apply (simp add: pool_window_def upt_rec)
  apply (simp add: interpolate_4)
  done

lemma final_labels_example:
  "final_labels 2 ''taskonomy''
     \<lparr>rgb = (),
      segment_semantic = [[(255, 255, 255), (255, 255, 255)], [(255, 255, 255), (255, 255, 255)]],
      normal = [[[0, 0], [0, 0]], [[0, 0], [0, 0]], [[0, 0], [0, 0]]],
      mask_valid = [[[1, 1, 1, 1], [1, 1, 1, 1], [1, 1, 1, 1], [1, 1, 1, 1]]],
      building = ''wiconisco''\<rparr> = Inr [[0, 0], [0, 0]]"
  "final_labels 2 ''taskonomy''
     \<lparr>rgb = (),
      segment_semantic = [[(255, 255, 255), (4, 2, 1)], [(255, 255, 255), (255, 255, 255)]],
      normal = [[[0, 0], [0, 0]], [[0, 0], [0, 0]], [[0, 0], [0, 0]]],
      mask_valid = [[[1, 1, 1, 1], [1, 1, 1, 1], [1, 1, 1, 1], [1, 1, 1, 1]]],
      building = ''wiconisco''\<rparr> = Inr [[0, 4], [0, 0]]"
  "final_labels 4 ''taskonomy''
     \<lparr>rgb = (),
      segment_semantic = [[(255, 255, 255), (255, 255, 255), (255, 255, 255), (255, 255, 255)],
                          [(255, 255, 255), (255, 255, 255), (255, 255, 255), (255, 255, 255)],
                          [(255, 255, 255), (255, 255, 255), (255, 255, 255), (255, 255, 255)],
                          [(255, 255, 255), (255, 255, 255), (255, 255, 255), (255, 255, 255)]],
      normal = [[[0, 0, 0, 0], [0, 0, 0, 0], [0, 0, 0, 0], [0, 0, 0, 0]],
                 [[0, 0, 0, 0], [0, 0, 0, 0], [0, 0, 0, 0], [0, 0, 0, 0]],
                 [[0, 0, 0, 0], [0, 0, 0, 0], [0, 0, 0, 0], [0, 0, 0, 0]]],
      mask_valid = [[[1, 1, 1, 1], [1, 1, 1, 1], [1, 1, 1, 1], [1, 1, 1, 1]]],
      building = ''wiconisco''\<rparr>
     = Inr [[0, 0, 0, 0], [0, 0, 0, 0], [0, 0, 0, 0], [0, 0, 0, 0]]"
    apply (simp_all add: final_labels_def make_valid_mask_T3 valid_plane_ones valid_plane_ones_4
      height_def width_def)
    apply (simp_all add: shape3_def height3_def width3_def height_def width_def
      repeat_interleave3_def squeeze_all_def imul_mask2_def broadcasts_def bidx_def
      decode_label_def undefined_to_zero_def numeral_3_eq_3)
  done

text \<open>
  C8, as stated, fails: the sample below, of 4 by 4 pixels, has a mask that is valid
  everywhere, so the sum of its valid mask is 16, and labels that are background
  everywhere; it is skipped, and nothing is logged.
\<close>

theorem skipped_with_valid_mask:
  "make_valid_mask 4 (T3 [[[1, 1, 1, 1], [1, 1, 1, 1], [1, 1, 1, 1], [1, 1, 1, 1]]]) 4
     = Inr (M4 [[[[True, True, True, True], [True, True, True, True],
                  [True, True, True, True], [True, True, True, True]]]]) \<and>
   mask_sum [[True, True, True, True], [True, True, True, True],
             [True, True, True, True], [True, True, True, True]] = 16 \<and>
   log_validation_example_images 4 [''taskonomy'', ''replica'', ''hypersim'']
     (\<lambda>d. if d = ''taskonomy'' then [0] else [])
     [\<lparr>rgb = (),
       segment_semantic = [[(255, 255, 255), (255, 255, 255), (255, 255, 255), (255, 255, 255)],
                           [(255, 255, 255), (255, 255, 255), (255, 255, 255), (255, 255, 255)],
                           [(255, 255, 255), (255, 255, 255), (255, 255, 255), (255, 255, 255)],
                           [(255, 255, 255), (255, 255, 255), (255, 255, 255), (255, 255, 255)]],
       normal = [[[0, 0, 0, 0], [0, 0, 0, 0], [0, 0, 0, 0], [0, 0, 0, 0]],
                  [[0, 0, 0, 0], [0, 0, 0, 0], [0, 0, 0, 0], [0, 0, 0, 0]],
                  [[0, 0, 0, 0], [0, 0, 0, 0], [0, 0, 0, 0], [0, 0, 0, 0]]],
       mask_valid = [[[1, 1, 1, 1], [1, 1, 1, 1], [1, 1, 1, 1], [1, 1, 1, 1]]],
       building = ''wiconisco''\<rparr>]
     = Inr (\<lambda>_. [])"
proof -
  have mv: "make_valid_mask 4 (T3 [[[1, 1, 1, 1], [1, 1, 1, 1], [1, 1, 1, 1], [1, 1, 1, 1]]]) 4
     = Inr (M4 [[[[True, True, True, True], [True, True, True, True],
                  [True, True, True, True], [True, True, True, True]]]])"
    by (simp add: make_valid_mask_T3 height_def width_def valid_plane_ones_4)
  have s: "mask_sum [[True, True, True, True], [True, True, True, True],
             [True, True, True, True], [True, True, True, True]] = 16"
    by (simp add: mask_sum_def)
  have "log_validation_example_images 4 [''taskonomy'', ''replica'', ''hypersim'']
     (\<lambda>d. if d = ''taskonomy'' then [0] else [])
     [\<lparr>rgb = (),
       segment_semantic = [[(255, 255, 255), (255, 255, 255), (255, 255, 255), (255, 255, 255)],
                           [(255, 255, 255), (255, 255, 255), (255, 255, 255), (255, 255, 255)],
                           [(255, 255, 255), (255, 255, 255), (255, 255, 255), (255, 255, 255)],
                           [(255, 255, 255), (255, 255, 255), (255, 255, 255), (255, 255, 255)]],
       normal = [[[0, 0, 0, 0], [0, 0, 0, 0], [0, 0, 0, 0], [0, 0, 0, 0]],
                  [[0, 0, 0, 0], [0, 0, 0, 0], [0, 0, 0, 0], [0, 0, 0, 0]],
                  [[0, 0, 0, 0], [0, 0, 0, 0], [0, 0, 0, 0], [0, 0, 0, 0]]],
       mask_valid = [[[1, 1, 1, 1], [1, 1, 1, 1], [1, 1, 1, 1], [1, 1, 1, 1]]],
       building = ''wiconisco''\<rparr>]
     = Inr (\<lambda>_. [])"
    by (simp add: log_validation_example_images_def log_example_def final_labels_example
        mask_sum_def)
  with mv s show ?thesis by (intro conjI)
qed

text \<open>
  C8, amended. When \<^verbatim>\<open>log_validation_example_images\<close> returns, for validation datasets
  that are pairwise distinct, the list it logs under each of the five keys of a dataset
  holds, in the order of the curated samples of the dataset, exactly the samples that
  are not skipped; every curated sample of the dataset is in the validation set and has
  its final labels computed (a sample that raises makes the function raise, and nothing
  is logged). A sample whose label image is a rectangle is skipped exactly when no
  pixel is both valid, in the valid mask as it is broadcast to the label image, and of a
  decoded label other than 0; so it is skipped when the sum of its valid mask is zero,
  and also when the mask is valid but every label is background or undefined.
\<close>

theorem skip_iff_no_labelled_valid_pixel:
  assumes ret: "log_validation_example_images S ds val_samples valset = Inr all"
      and dist: "distinct ds" and d: "d \<in> set ds" and k: "k \<in> keys_of d"
  shows "all k = filter (\<lambda>i. \<not> skipped S d (valset ! i)) (val_samples d) \<and>
         (\<forall>i\<in>set (val_samples d).
            i < length valset \<and>
            (\<exists>g mk.
               final_labels S d (valset ! i) = Inr g \<and>
               squeeze_all S (map (valid_plane S 4) (mask_valid (valset ! i))) = Some mk \<and>
               (rect (height (segment_semantic (valset ! i)))
                  (width (segment_semantic (valset ! i))) (segment_semantic (valset ! i)) \<longrightarrow>
                (skipped S d (valset ! i) \<longleftrightarrow>
                   (\<forall>y<height (segment_semantic (valset ! i)).
                    \<forall>x<width (segment_semantic (valset ! i)).
                      \<not> (mk ! bidx (height mk) y ! bidx (width mk) x \<and>
                         decode_label d (segment_semantic (valset ! i) ! y ! x) \<noteq> 0))) \<and>
                ((\<forall>p\<in>set (map (valid_plane S 4) (mask_valid (valset ! i))). mask_sum p = 0) \<longrightarrow>
                   skipped S d (valset ! i)))))"
proof -
  from ret have l: "log_datasets S valset val_samples ds (\<lambda>_. []) = Inr all"
    by (simp add: log_validation_example_images_def)
  from log_datasets_key [OF l dist d k]
  have key: "all k = filter (\<lambda>i. \<not> skipped S d (valset ! i)) (val_samples d)"
    and each: "\<forall>i\<in>set (val_samples d).
                 i < length valset \<and> (\<exists>g. final_labels S d (valset ! i) = Inr g)"
    by simp_all
  have "i < length valset \<and>
        (\<exists>g mk.
           final_labels S d (valset ! i) = Inr g \<and>
           squeeze_all S (map (valid_plane S 4) (mask_valid (valset ! i))) = Some mk \<and>
           (rect (height (segment_semantic (valset ! i)))
              (width (segment_semantic (valset ! i))) (segment_semantic (valset ! i)) \<longrightarrow>
            (skipped S d (valset ! i) \<longleftrightarrow>
               (\<forall>y<height (segment_semantic (valset ! i)).
                \<forall>x<width (segment_semantic (valset ! i)).
                  \<not> (mk ! bidx (height mk) y ! bidx (width mk) x \<and>
                     decode_label d (segment_semantic (valset ! i) ! y ! x) \<noteq> 0))) \<and>
            ((\<forall>p\<in>set (map (valid_plane S 4) (mask_valid (valset ! i))). mask_sum p = 0) \<longrightarrow>
               skipped S d (valset ! i))))"
    if i: "i \<in> set (val_samples d)" for i
  proof -
    from each i have lt: "i < length valset"
      and "\<exists>g. final_labels S d (valset ! i) = Inr g"
      by simp_all
    then obtain g where fl: "final_labels S d (valset ! i) = Inr g" by blast
    from fl obtain mk
      where sq: "squeeze_all S (map (valid_plane S 4) (mask_valid (valset ! i))) = Some mk"
      by (rule final_labels_cases)
    from skipped_pixels [OF fl sq] lt fl sq show ?thesis by blast
  qed
  with key show ?thesis by blast
qed

theorem skip_iff_no_labelled_valid_pixel_witness:
  "log_validation_example_images 2 [''taskonomy'', ''replica'', ''hypersim'']
     (\<lambda>d. if d = ''taskonomy'' then [0, 1] else [])
     [\<lparr>rgb = (),
       segment_semantic = [[(255, 255, 255), (255, 255, 255)], [(255, 255, 255), (255, 255, 255)]],
       normal = [[[0, 0], [0, 0]], [[0, 0], [0, 0]], [[0, 0], [0, 0]]],
       mask_valid = [[[1, 1, 1, 1], [1, 1, 1, 1], [1, 1, 1, 1], [1, 1, 1, 1]]],
       building = ''wiconisco''\<rparr>,
      \<lparr>rgb = (),
       segment_semantic = [[(255, 255, 255), (4, 2, 1)], [(255, 255, 255), (255, 255, 255)]],
       normal = [[[0, 0], [0, 0]], [[0, 0], [0, 0]], [[0, 0], [0, 0]]],
       mask_valid = [[[1, 1, 1, 1], [1, 1, 1, 1], [1, 1, 1, 1], [1, 1, 1, 1]]],
       building = ''wiconisco''\<rparr>]
     = Inr (log_images ''taskonomy'' 1 (\<lambda>_. [])) \<and>
   log_images ''taskonomy'' 1 (\<lambda>_. []) ''gt-semantic-taskonomy'' = [1] \<and>
   skipped 2 ''taskonomy''
     \<lparr>rgb = (),
       segment_semantic = [[(255, 255, 255), (255, 255, 255)], [(255, 255, 255), (255, 255, 255)]],
       normal = [[[0, 0], [0, 0]], [[0, 0], [0, 0]], [[0, 0], [0, 0]]],
       mask_valid = [[[1, 1, 1, 1], [1, 1, 1, 1], [1, 1, 1, 1], [1, 1, 1, 1]]],
       building = ''wiconisco''\<rparr> \<and>
   \<not> skipped 2 ''taskonomy''
     \<lparr>rgb = (),
       segment_semantic = [[(255, 255, 255), (4, 2, 1)], [(255, 255, 255), (255, 255, 255)]],
       normal = [[[0, 0], [0, 0]], [[0, 0], [0, 0]], [[0, 0], [0, 0]]],
       mask_valid = [[[1, 1, 1, 1], [1, 1, 1, 1], [1, 1, 1, 1], [1, 1, 1, 1]]],
       building = ''wiconisco''\<rparr>"
proof -
  let ?ex0 = "\<lparr>rgb = (),
       segment_semantic = [[(255, 255, 255), (255, 255, 255)], [(255, 255, 255), (255, 255, 255)]],
       normal = [[[0, 0], [0, 0]], [[0, 0], [0, 0]], [[0, 0], [0, 0]]],
       mask_valid = [[[1, 1, 1, 1], [1, 1, 1, 1], [1, 1, 1, 1], [1, 1, 1, 1]]],
       building = ''wiconisco''\<rparr> :: unit example"
  let ?ex1 = "\<lparr>rgb = (),
       segment_semantic = [[(255, 255, 255), (4, 2, 1)], [(255, 255, 255), (255, 255, 255)]],
       normal = [[[0, 0], [0, 0]], [[0, 0], [0, 0]], [[0, 0], [0, 0]]],
       mask_valid = [[[1, 1, 1, 1], [1, 1, 1, 1], [1, 1, 1, 1], [1, 1, 1, 1]]],
       building = ''wiconisco''\<rparr> :: unit example"
  let ?vs = "\<lambda>d. if d = ''taskonomy'' then [0, 1 :: nat] else []"
  let ?ds = "[''taskonomy'', ''replica'', ''hypersim'']"
  let ?all = "log_images ''taskonomy'' 1 (\<lambda>_. [])"
  have ret: "log_validation_example_images 2 ?ds ?vs [?ex0, ?ex1] = Inr ?all"
    by (simp add: log_validation_example_images_def log_example_def final_labels_example
        mask_sum_def)
  have dist: "distinct ?ds" by simp
  have d: "''taskonomy'' \<in> set ?ds" by simp
  have k: "''gt-semantic-taskonomy'' \<in> keys_of ''taskonomy''" by (simp add: keys_of_def)
  note T = skip_iff_no_labelled_valid_pixel [OF ret dist d k]
  from T have e0: "\<exists>g mk.
       final_labels 2 ''taskonomy'' ?ex0 = Inr g \<and>
       squeeze_all 2 (map (valid_plane 2 4) (mask_valid ?ex0)) = Some mk \<and>
       (rect (height (segment_semantic ?ex0)) (width (segment_semantic ?ex0))
          (segment_semantic ?ex0) \<longrightarrow>
        (skipped 2 ''taskonomy'' ?ex0 \<longleftrightarrow>
           (\<forall>y<height (segment_semantic ?ex0). \<forall>x<width (segment_semantic ?ex0).
              \<not> (mk ! bidx (height mk) y ! bidx (width mk) x \<and>
                 decode_label ''taskonomy'' (segment_semantic ?ex0 ! y ! x) \<noteq> 0))) \<and>
        ((\<forall>p\<in>set (map (valid_plane 2 4) (mask_valid ?ex0)). mask_sum p = 0) \<longrightarrow>
           skipped 2 ''taskonomy'' ?ex0))"
    by simp
  from T have e1: "\<exists>g mk.
       final_labels 2 ''taskonomy'' ?ex1 = Inr g \<and>
       squeeze_all 2 (map (valid_plane 2 4) (mask_valid ?ex1)) = Some mk \<and>
       (rect (height (segment_semantic ?ex1)) (width (segment_semantic ?ex1))
          (segment_semantic ?ex1) \<longrightarrow>
        (skipped 2 ''taskonomy'' ?ex1 \<longleftrightarrow>
           (\<forall>y<height (segment_semantic ?ex1). \<forall>x<width (segment_semantic ?ex1).
              \<not> (mk ! bidx (height mk) y ! bidx (width mk) x \<and>
                 decode_label ''taskonomy'' (segment_semantic ?ex1 ! y ! x) \<noteq> 0))) \<and>
        ((\<forall>p\<in>set (map (valid_plane 2 4) (mask_valid ?ex1)). mask_sum p = 0) \<longrightarrow>
           skipped 2 ''taskonomy'' ?ex1))"
    by simp
  have all2: "(\<forall>y<Suc (Suc 0). \<forall>x<Suc (Suc 0). P y x) \<longleftrightarrow>
                P 0 0 \<and> P 0 (Suc 0) \<and> P (Suc 0) 0 \<and> P (Suc 0) (Suc 0)"
    for P :: "nat \<Rightarrow> nat \<Rightarrow> bool"
    by (auto simp: less_Suc_eq)
  have r: "rect (height (segment_semantic ?ex0)) (width (segment_semantic ?ex0))
             (segment_semantic ?ex0)"
    "rect (height (segment_semantic ?ex1)) (width (segment_semantic ?ex1))
             (segment_semantic ?ex1)"
    by (simp_all add: rect_def height_def width_def)
  from e0 obtain mk0
    where q0: "squeeze_all 2 (map (valid_plane 2 4) (mask_valid ?ex0)) = Some mk0"
      and i0: "rect (height (segment_semantic ?ex0)) (width (segment_semantic ?ex0))
          (segment_semantic ?ex0) \<longrightarrow>
        (skipped 2 ''taskonomy'' ?ex0 \<longleftrightarrow>
           (\<forall>y<height (segment_semantic ?ex0). \<forall>x<width (segment_semantic ?ex0).
              \<not> (mk0 ! bidx (height mk0) y ! bidx (width mk0) x \<and>
                 decode_label ''taskonomy'' (segment_semantic ?ex0 ! y ! x) \<noteq> 0))) \<and>
        ((\<forall>p\<in>set (map (valid_plane 2 4) (mask_valid ?ex0)). mask_sum p = 0) \<longrightarrow>
           skipped 2 ''taskonomy'' ?ex0)"
    by blast
  from q0 have m0: "mk0 = [[True, True], [True, True]]"
    by (simp add: squeeze_all_def valid_plane_ones)
  from i0 r(1) have "skipped 2 ''taskonomy'' ?ex0 \<longleftrightarrow>
           (\<forall>y<height (segment_semantic ?ex0). \<forall>x<width (segment_semantic ?ex0).
              \<not> (mk0 ! bidx (height mk0) y ! bidx (width mk0) x \<and>
                 decode_label ''taskonomy'' (segment_semantic ?ex0 ! y ! x) \<noteq> 0))"
    by blast
  then have s0: "skipped 2 ''taskonomy'' ?ex0"
    unfolding m0
    by (simp add: height_def width_def all2 bidx_def decode_label_def undefined_to_zero_def)
  from e1 obtain mk1
    where q1: "squeeze_all 2 (map (valid_plane 2 4) (mask_valid ?ex1)) = Some mk1"
      and i1: "rect (height (segment_semantic ?ex1)) (width (segment_semantic ?ex1))
          (segment_semantic ?ex1) \<longrightarrow>
        (skipped 2 ''taskonomy'' ?ex1 \<longleftrightarrow>
           (\<forall>y<height (segment_semantic ?ex1). \<forall>x<width (segment_semantic ?ex1).
              \<not> (mk1 ! bidx (height mk1) y ! bidx (width mk1) x \<and>
                 decode_label ''taskonomy'' (segment_semantic ?ex1 ! y ! x) \<noteq> 0))) \<and>
        ((\<forall>p\<in>set (map (valid_plane 2 4) (mask_valid ?ex1)). mask_sum p = 0) \<longrightarrow>
           skipped 2 ''taskonomy'' ?ex1)"
    by blast
  from q1 have m1: "mk1 = [[True, True], [True, True]]"
    by (simp add: squeeze_all_def valid_plane_ones)
  from i1 r(2) have "skipped 2 ''taskonomy'' ?ex1 \<longleftrightarrow>
           (\<forall>y<height (segment_semantic ?ex1). \<forall>x<width (segment_semantic ?ex1).
              \<not> (mk1 ! bidx (height mk1) y ! bidx (width mk1) x \<and>
                 decode_label ''taskonomy'' (segment_semantic ?ex1 ! y ! x) \<noteq> 0))"
    by blast
  then have s1: "\<not> skipped 2 ''taskonomy'' ?ex1"
    unfolding m1
    by (simp add: height_def width_def all2 bidx_def decode_label_def undefined_to_zero_def)
  from T have "?all ''gt-semantic-taskonomy''
      = filter (\<lambda>i. \<not> skipped 2 ''taskonomy'' ([?ex0, ?ex1] ! i)) [0, 1]"
    by simp
  with s0 s1 have logged: "?all ''gt-semantic-taskonomy'' = [1]"
    by simp
  from ret logged s0 s1 show ?thesis by (intro conjI)
qed


end
